theory Spec2Isabelle
  imports
    Complex_Main
    "HOL-Library.Word"
    "HOL-Library.Signed_Division"
    "HOL-Library.Char_ord"
    "HOL-Library.List_Lexorder"
    "HOL-Library.Product_Lexorder"
    "HOL-Library.Multiset"
begin

section \<open>Errors and machine numbers\<close>

text \<open>
  The ways a run of one of the programs can end other than by returning a value.
  \<open>OutOfBounds\<close>, \<open>DivideByZero\<close> and \<open>NotFound\<close> are the error kinds the
  specification names; \<open>ParseError\<close> stands for the exception \<open>std::stof\<close> throws,
  \<open>CvException\<close> for an exception thrown by the image library (a negative matrix
  size, operands of different size), \<open>UnknownFeatureType\<close> for the \<open>return 1\<close> of the
  \<open>main\<close> functions, and \<open>UndefinedBehaviour\<close> for a step whose behaviour C++ leaves
  undefined (signed overflow, a read or write outside a buffer).
\<close>

datatype error =
    OutOfBounds
  | DivideByZero
  | NotFound
  | ParseError
  | CvException
  | UnknownFeatureType
  | UndefinedBehaviour

definition bind_err :: "error + 'a \<Rightarrow> ('a \<Rightarrow> error + 'b) \<Rightarrow> error + 'b" where
  "bind_err m f = (case m of Inl e \<Rightarrow> Inl e | Inr a \<Rightarrow> f a)"

text \<open>A loop over a list whose body can fail: the first failure ends the loop.\<close>

primrec fold_err :: "('a \<Rightarrow> 's \<Rightarrow> error + 's) \<Rightarrow> 'a list \<Rightarrow> 's \<Rightarrow> error + 's" where
  "fold_err f [] s = Inr s"
| "fold_err f (a # as) s = (case f a s of Inl e \<Rightarrow> Inl e | Inr s' \<Rightarrow> fold_err f as s')"

text \<open>The range of the 32-bit \<open>int\<close> of the source.\<close>

definition int_ok :: "int \<Rightarrow> bool" where
  "int_ok n \<longleftrightarrow> - (2 ^ 31) \<le> n \<and> n < 2 ^ 31"

section \<open>Images and count histograms\<close>

text \<open>
  A pixel is a \<open>Vec3b\<close>: three unsigned bytes, \<open>pixel[0]\<close> blue, \<open>pixel[1]\<close> green,
  \<open>pixel[2]\<close> red. An image is a continuous \<open>Mat\<close>: its pixels in row-major order.
\<close>

type_synonym Vec3b = "8 word \<times> 8 word \<times> 8 word"

record image =
  rows :: nat
  cols :: nat
  pixels :: "Vec3b list"

text \<open>
  A well-formed image holds \<open>rows * cols\<close> pixels, and its dimensions fit the \<open>int\<close>
  fields \<open>Mat::rows\<close> and \<open>Mat::cols\<close>.
\<close>

definition wf_image :: "image \<Rightarrow> bool" where
  "wf_image img \<longleftrightarrow>
     length (pixels img) = rows img * cols img \<and>
     int_ok (int (rows img)) \<and> int_ok (int (cols img))"

text \<open>The image of the scenarios: every pixel the same.\<close>

definition solid_image :: "nat \<Rightarrow> nat \<Rightarrow> Vec3b \<Rightarrow> image" where
  "solid_image h w p = \<lparr>rows = h, cols = w, pixels = replicate (h * w) p\<rparr>"

text \<open>
  \<open>image.at<Vec3b>(y, x)\<close>. The accessor checks its indices in the library's debug
  configuration only; otherwise it is the address computation \<open>data + y * step + x\<close>,
  which yields the pixel stored there while the address is inside the buffer and is
  undefined outside it.
\<close>

definition Mat_at :: "image \<Rightarrow> int \<Rightarrow> int \<Rightarrow> error + Vec3b" where
  "Mat_at img y x =
     (let off = y * int (cols img) + x
      in if 0 \<le> off \<and> off < int (length (pixels img))
         then Inr (pixels img ! nat off) else Inl UndefinedBehaviour)"

text \<open>
  A histogram is a \<open>CV_32F\<close> matrix, flattened in row-major order. Its cells start at
  \<open>0\<close> and are only ever changed by \<open>++\<close>, so each holds a whole number, written here as
  a \<open>nat\<close>. Single-precision addition of \<open>1\<close> is exact below \<open>2^24\<close>; at \<open>2^24\<close> the sum
  \<open>2^24 + 1\<close> is not representable and rounds (to nearest, ties to even) back to \<open>2^24\<close>.
\<close>

definition float_incr :: "nat \<Rightarrow> nat" where
  "float_incr n = (if n < 2 ^ 24 then n + 1 else n)"

definition hist_incr :: "nat list \<Rightarrow> int \<Rightarrow> error + nat list" where
  "hist_incr h off =
     (if 0 \<le> off \<and> off < int (length h)
      then Inr (h[nat off := float_incr (h ! nat off)]) else Inl UndefinedBehaviour)"

text \<open>\<open>Mat hist(3, {bins, bins, bins}, CV_32F, Scalar(0))\<close> and \<open>Mat::zeros(bins, bins, CV_32F)\<close>.\<close>

definition new_hist3 :: "int \<Rightarrow> error + nat list" where
  "new_hist3 bins = (if bins < 0 then Inl CvException else Inr (replicate (nat bins ^ 3) 0))"

definition new_hist2 :: "int \<Rightarrow> error + nat list" where
  "new_hist2 bins = (if bins < 0 then Inl CvException else Inr (replicate (nat bins ^ 2) 0))"

text \<open>
  \<open>hist.at<float>(i, j, k)\<close> of a 3-D histogram with \<open>bins\<close> per axis, for indices inside
  the histogram.
\<close>

definition hist_at3 :: "nat list \<Rightarrow> int \<Rightarrow> int \<Rightarrow> int \<Rightarrow> int \<Rightarrow> nat" where
  "hist_at3 h bins i j k = h ! nat ((i * bins + j) * bins + k)"

subsection \<open>The 3-D colour histogram (\<open>compute_featurescolorandtexture.cpp\<close>)\<close>

text \<open>
  \<open>min(static_cast<int>(c * bins / 256), bins - 1)\<close> for a channel byte \<open>c\<close>: the byte is
  promoted to \<open>int\<close>, the product and the quotient are \<open>int\<close> operations (the quotient
  truncates towards zero), and an \<open>int\<close> result out of range is undefined behaviour.
\<close>

definition binIndex :: "8 word \<Rightarrow> int \<Rightarrow> error + int" where
  "binIndex c bins =
     (if int_ok (uint c * bins) \<and> int_ok (bins - 1)
      then Inr (min ((uint c * bins) sdiv 256) (bins - 1))
      else Inl UndefinedBehaviour)"

text \<open>The body of the pixel loop: three bucket indices, then \<open>hist.at<float>(rBin, gBin, bBin)++\<close>.\<close>

definition rgb_bin_step :: "int \<Rightarrow> Vec3b \<Rightarrow> nat list \<Rightarrow> error + nat list" where
  "rgb_bin_step bins pixel hist =
     (case pixel of (b, g, r) \<Rightarrow>
        bind_err (binIndex r bins) (\<lambda>rBin.
        bind_err (binIndex g bins) (\<lambda>gBin.
        bind_err (binIndex b bins) (\<lambda>bBin.
        hist_incr hist ((rBin * bins + gBin) * bins + bBin)))))"

definition computeRGBHistogram :: "image \<Rightarrow> int \<Rightarrow> error + nat list" where
  "computeRGBHistogram img bins =
     bind_err (new_hist3 bins) (\<lambda>hist.
       fold_err (\<lambda>(y, x) h. bind_err (Mat_at img y x) (\<lambda>pixel. rgb_bin_step bins pixel h))
         (List.product [0 .. int (rows img) - 1] [0 .. int (cols img) - 1]) hist)"

subsection \<open>The colour histogram of a region (\<open>compute_featuresmulti.cpp\<close>)\<close>

record Rect =
  rect_x :: int
  rect_y :: int
  rect_width :: int
  rect_height :: int

definition computeRGBHistogram_region :: "image \<Rightarrow> int \<Rightarrow> Rect \<Rightarrow> error + nat list" where
  "computeRGBHistogram_region img bins region =
     bind_err (new_hist3 bins) (\<lambda>hist.
       if int_ok (rect_y region + rect_height region) \<and> int_ok (rect_x region + rect_width region)
       then
         fold_err (\<lambda>(y, x) h. bind_err (Mat_at img y x) (\<lambda>pixel. rgb_bin_step bins pixel h))
           (List.product [rect_y region .. rect_y region + rect_height region - 1]
                         [rect_x region .. rect_x region + rect_width region - 1]) hist
       else Inl UndefinedBehaviour)"

text \<open>A region that lies inside the image.\<close>

definition region_inside :: "image \<Rightarrow> Rect \<Rightarrow> bool" where
  "region_inside img region \<longleftrightarrow>
     0 \<le> rect_x region \<and> 0 \<le> rect_y region \<and> 0 \<le> rect_width region \<and> 0 \<le> rect_height region \<and>
     rect_x region + rect_width region \<le> int (cols img) \<and>
     rect_y region + rect_height region \<le> int (rows img)"

subsection \<open>The 2-D rg chromaticity histogram (\<open>compute_histo_features.cpp\<close>)\<close>

text \<open>
  \<open>r = pixel[2] / 255.0; rBin = min(static_cast<int>(r * bins), bins - 1)\<close>. The
  conversion truncates towards zero. The quotient and the product are taken exactly here;
  the rounding of the float operations, which can move a value that lies on a bucket
  boundary into the neighbouring bucket, is not modelled.
\<close>

definition rgIndex :: "8 word \<Rightarrow> int \<Rightarrow> error + int" where
  "rgIndex c bins =
     (if int_ok (bins - 1)
      then Inr (min ((uint c * bins) sdiv 255) (bins - 1))
      else Inl UndefinedBehaviour)"

definition rg_bin_step :: "int \<Rightarrow> Vec3b \<Rightarrow> nat list \<Rightarrow> error + nat list" where
  "rg_bin_step bins pixel hist =
     (case pixel of (b, g, r) \<Rightarrow>
        bind_err (rgIndex r bins) (\<lambda>rBin.
        bind_err (rgIndex g bins) (\<lambda>gBin.
        hist_incr hist (rBin * bins + gBin))))"

definition computeRGChromaticityHistogram :: "image \<Rightarrow> int \<Rightarrow> error + nat list" where
  "computeRGChromaticityHistogram img bins =
     bind_err (new_hist2 bins) (\<lambda>hist.
       fold_err (\<lambda>(y, x) h. bind_err (Mat_at img y x) (\<lambda>pixel. rg_bin_step bins pixel h))
         (List.product [0 .. int (rows img) - 1] [0 .. int (cols img) - 1]) hist)"

section \<open>Floating-point values\<close>

text \<open>
  A \<open>float\<close> or \<open>double\<close> of the source: a real number or one of the special values of
  IEEE 754. The operations follow IEEE 754 on the special values (\<open>x / 0\<close> is an infinity
  or \<open>NaN\<close>, \<open>0 * \<infinity>\<close> is \<open>NaN\<close>, a comparison with \<open>NaN\<close> is false). Finite results are
  exact: rounding, overflow to infinity and the sign of zero are not modelled.
\<close>

datatype float = Fin real | PInf | NInf | NaN

fun fneg :: "float \<Rightarrow> float" where
  "fneg (Fin a) = Fin (- a)"
| "fneg PInf = NInf"
| "fneg NInf = PInf"
| "fneg NaN = NaN"

fun fadd :: "float \<Rightarrow> float \<Rightarrow> float" where
  "fadd (Fin a) (Fin b) = Fin (a + b)"
| "fadd NaN y = NaN"
| "fadd x NaN = NaN"
| "fadd PInf NInf = NaN"
| "fadd NInf PInf = NaN"
| "fadd PInf y = PInf"
| "fadd NInf y = NInf"
| "fadd x PInf = PInf"
| "fadd x NInf = NInf"

definition fsub :: "float \<Rightarrow> float \<Rightarrow> float" where
  "fsub x y = fadd x (fneg y)"

text \<open>The sign of a value that is not \<open>NaN\<close>: \<open>1\<close>, \<open>0\<close> or \<open>-1\<close>.\<close>

fun fsign :: "float \<Rightarrow> int" where
  "fsign (Fin a) = (if a = 0 then 0 else if 0 < a then 1 else - 1)"
| "fsign PInf = 1"
| "fsign NInf = - 1"
| "fsign NaN = 0"

definition inf_of_sign :: "int \<Rightarrow> float" where
  "inf_of_sign s = (if s = 0 then NaN else if 0 < s then PInf else NInf)"

fun fmul :: "float \<Rightarrow> float \<Rightarrow> float" where
  "fmul (Fin a) (Fin b) = Fin (a * b)"
| "fmul NaN y = NaN"
| "fmul x NaN = NaN"
| "fmul x y = inf_of_sign (fsign x * fsign y)"

fun fdiv :: "float \<Rightarrow> float \<Rightarrow> float" where
  "fdiv (Fin a) (Fin b) = (if b = 0 then inf_of_sign (fsign (Fin a)) else Fin (a / b))"
| "fdiv NaN y = NaN"
| "fdiv x NaN = NaN"
| "fdiv (Fin a) y = Fin 0"
| "fdiv x (Fin b) = inf_of_sign (fsign x * (if b < 0 then - 1 else 1))"
| "fdiv x y = NaN"

fun fsqrt :: "float \<Rightarrow> float" where
  "fsqrt (Fin a) = (if a < 0 then NaN else Fin (sqrt a))"
| "fsqrt PInf = PInf"
| "fsqrt NInf = NaN"
| "fsqrt NaN = NaN"

fun fless :: "float \<Rightarrow> float \<Rightarrow> bool" where
  "fless (Fin a) (Fin b) \<longleftrightarrow> a < b"
| "fless NaN y \<longleftrightarrow> False"
| "fless x NaN \<longleftrightarrow> False"
| "fless x NInf \<longleftrightarrow> False"
| "fless PInf y \<longleftrightarrow> False"
| "fless NInf y \<longleftrightarrow> True"
| "fless x PInf \<longleftrightarrow> True"

text \<open>
  \<open>min(a, b)\<close> as \<open>b < a ? b : a\<close>. (Which operand the library's matrix minimum
  returns when one of them is \<open>NaN\<close> is not modelled; no result below depends on it.)
\<close>

definition fmin :: "float \<Rightarrow> float \<Rightarrow> float" where
  "fmin a b = (if fless b a then b else a)"

text \<open>\<open>cv::sum(m)[0]\<close>, and an accumulation \<open>acc += x\<close> over a vector, from \<open>0\<close>.\<close>

definition fsum :: "float list \<Rightarrow> float" where
  "fsum xs = foldl fadd (Fin 0) xs"

section \<open>The histogram normalizer (all seven programs)\<close>

text \<open>
  \<open>hist.copyTo(histNorm); histNorm /= sum(hist)[0]; return histNorm;\<close> The library
  implements \<open>m /= s\<close> for a scalar \<open>s\<close> as the multiplication of every element by
  \<open>1 / s\<close>. No step of the function throws, so every input yields a vector.
\<close>

definition normalizeHistogram :: "float list \<Rightarrow> error + float list" where
  "normalizeHistogram hist =
     (let s = fsum hist; alpha = fdiv (Fin 1) s
      in Inr (map (\<lambda>x. fmul x alpha) hist))"

section \<open>Distance metrics (\<open>custom_design.cpp\<close>)\<close>

text \<open>
  \<open>sum(min(hist1, hist2))[0]\<close>: the element-wise minimum of two matrices, which the library
  refuses with an exception when their sizes differ, then the sum of its elements.
\<close>

definition computeHistogramIntersection :: "float list \<Rightarrow> float list \<Rightarrow> error + float" where
  "computeHistogramIntersection hist1 hist2 =
     (if length hist1 \<noteq> length hist2 then Inl CvException
      else Inr (fsum (map2 fmin hist1 hist2)))"

text \<open>
  The loop \<open>for (i = 0; i < v1.size(); ++i)\<close> reads \<open>v2[i]\<close> unchecked: with \<open>v2\<close> shorter
  than \<open>v1\<close> it reads past the end of \<open>v2\<close>.
\<close>

definition cosine_sums :: "float list \<Rightarrow> float list \<Rightarrow> float \<times> float \<times> float" where
  "cosine_sums v1 v2 =
     foldl (\<lambda>(dotProduct, normV1, normV2) (a, b).
              (fadd dotProduct (fmul a b), fadd normV1 (fmul a a), fadd normV2 (fmul b b)))
       (Fin 0, Fin 0, Fin 0) (zip v1 v2)"

definition computeCosineDistance :: "float list \<Rightarrow> float list \<Rightarrow> error + float" where
  "computeCosineDistance v1 v2 =
     (if length v2 < length v1 then Inl UndefinedBehaviour
      else case cosine_sums v1 v2 of (dotProduct, normV1, normV2) \<Rightarrow>
        Inr (fsub (Fin 1) (fdiv dotProduct (fmul (fsqrt normV1) (fsqrt normV2)))))"

definition computeCombinedDistance ::
  "float list \<Rightarrow> float list \<Rightarrow> float list \<Rightarrow> float list \<Rightarrow> float list \<Rightarrow> float list \<Rightarrow> error + float"
where
  "computeCombinedDistance colorHist1 colorHist2 textureHist1 textureHist2 deepFeature1 deepFeature2 =
     bind_err (computeHistogramIntersection colorHist1 colorHist2) (\<lambda>ci.
     bind_err (computeHistogramIntersection textureHist1 textureHist2) (\<lambda>ti.
     bind_err (computeCosineDistance deepFeature1 deepFeature2) (\<lambda>deepDistance.
       let colorDistance = fsub (Fin 1) ci;
           textureDistance = fsub (Fin 1) ti
       in Inr (fadd (fadd (fmul (Fin (4 / 10)) colorDistance) (fmul (Fin (3 / 10)) textureDistance))
                    (fmul (Fin (3 / 10)) deepDistance)))))"

text \<open>
  The metrics in the specification's words: \<open>\<Sum> min(a_i, b_i)\<close> and
  \<open>1 - (a \<cdot> b) / (\<parallel>a\<parallel> \<cdot> \<parallel>b\<parallel>)\<close>, over real vectors.
\<close>

definition spec_HistogramIntersection :: "real list \<Rightarrow> real list \<Rightarrow> real" where
  "spec_HistogramIntersection a b = (\<Sum>i<length a. min (a ! i) (b ! i))"

definition spec_norm :: "real list \<Rightarrow> real" where
  "spec_norm a = sqrt (\<Sum>i<length a. (a ! i)\<^sup>2)"

definition spec_CosineDistance :: "real list \<Rightarrow> real list \<Rightarrow> real" where
  "spec_CosineDistance a b = 1 - (\<Sum>i<length a. a ! i * b ! i) / (spec_norm a * spec_norm b)"

section \<open>Ranking (\<open>find_matches.cpp\<close> and the other matching programs)\<close>

text \<open>
  Every matching program collects a \<open>vector<pair<float, string>>\<close> of \<open>(score, filename)\<close>
  pairs, sorts it and prints its first \<open>numMatches\<close> entries. The scores are taken to be
  numbers (a \<open>NaN\<close> among them would break the precondition of \<open>std::sort\<close>). Strings
  compare as \<open>std::string\<close> does: lexicographically, character by character as unsigned
  bytes, a proper prefix first; this is the order of \<open>string\<close> here.

  \<open>operator<\<close> of \<open>std::pair\<close>, and the order \<open>std::greater\<close> sorts by.
\<close>

definition pair_less :: "real \<times> string \<Rightarrow> real \<times> string \<Rightarrow> bool" where
  "pair_less p q \<longleftrightarrow> fst p < fst q \<or> (\<not> fst q < fst p \<and> snd p < snd q)"

definition pair_greater :: "real \<times> string \<Rightarrow> real \<times> string \<Rightarrow> bool" where
  "pair_greater p q \<longleftrightarrow> pair_less q p"

text \<open>
  \<open>std::sort(first, last, lt)\<close> returns the elements in an order in which no element is
  smaller by \<open>lt\<close> than one before it. Both orders above are strict linear orders, so that
  arrangement is unique (\<open>std_sort_unique\<close> below) and sorting by insertion computes it.
\<close>

fun insert_by :: "('a \<Rightarrow> 'a \<Rightarrow> bool) \<Rightarrow> 'a \<Rightarrow> 'a list \<Rightarrow> 'a list" where
  "insert_by lt x [] = [x]"
| "insert_by lt x (y # ys) = (if lt y x then y # insert_by lt x ys else x # y # ys)"

definition std_sort :: "('a \<Rightarrow> 'a \<Rightarrow> bool) \<Rightarrow> 'a list \<Rightarrow> 'a list" where
  "std_sort lt xs = foldr (insert_by lt) xs []"

text \<open>
  The scoring loop: one \<open>(score, filename)\<close> pair per record of the store, in store order.
  The metric (which has the target's features built in) is a parameter.
\<close>

definition scoreAll :: "('v \<Rightarrow> real) \<Rightarrow> (string \<times> 'v) list \<Rightarrow> (real \<times> string) list" where
  "scoreAll metric features = map (\<lambda>(filename, v). (metric v, filename)) features"

text \<open>
  \<open>for (int i = 0; i < numMatches && i < distances.size(); ++i) cout << distances[i] ...\<close>:
  the entries printed, in order. \<open>i\<close> is never negative, so its conversion to \<open>size_t\<close> in
  the second comparison keeps its value. \<open>distances[i]\<close> is an unchecked access.
\<close>

function top_loop ::
  "int \<Rightarrow> int \<Rightarrow> (real \<times> string) list \<Rightarrow> (real \<times> string) list \<Rightarrow> error + (real \<times> string) list"
where
  "top_loop i numMatches distances out =
     (if i < numMatches \<and> i < int (length distances)
      then (if 0 \<le> i
            then top_loop (i + 1) numMatches distances (out @ [distances ! nat i])
            else Inl UndefinedBehaviour)
      else Inr out)"
  by pat_completeness auto
termination
  by (relation "measure (\<lambda>(i, numMatches, distances, out). nat (numMatches - i))") auto

definition rank_ascending :: "('v \<Rightarrow> real) \<Rightarrow> int \<Rightarrow> (string \<times> 'v) list \<Rightarrow> error + (real \<times> string) list" where
  "rank_ascending metric numMatches features =
     top_loop 0 numMatches (std_sort pair_less (scoreAll metric features)) []"

definition rank_descending :: "('v \<Rightarrow> real) \<Rightarrow> int \<Rightarrow> (string \<times> 'v) list \<Rightarrow> error + (real \<times> string) list" where
  "rank_descending metric numMatches features =
     top_loop 0 numMatches (std_sort pair_greater (scoreAll metric features)) []"

section \<open>The centre-patch extractor (\<open>compute_features.cpp\<close>)\<close>

text \<open>\<open>featureVector.push_back(pixel[0]); ... (pixel[1]); ... (pixel[2])\<close>: each byte as a float.\<close>

definition channels :: "Vec3b \<Rightarrow> float list" where
  "channels pixel = (case pixel of (b, g, r) \<Rightarrow> [Fin (real (unat b)), Fin (real (unat g)), Fin (real (unat r))])"

text \<open>
  The \<open>7 \<times> 7\<close> block around \<open>(cols / 2, rows / 2)\<close>, scanned row by row. The function
  compares no index with the image size; every pixel is read with \<open>image.at<Vec3b>(y, x)\<close>.
\<close>

definition computeBaselineFeatureVector :: "image \<Rightarrow> error + float list" where
  "computeBaselineFeatureVector img =
     (let centerX = int (cols img) div 2;
          centerY = int (rows img) div 2;
          halfSize = 3
      in fold_err (\<lambda>(y, x) featureVector.
                     bind_err (Mat_at img y x) (\<lambda>pixel. Inr (featureVector @ channels pixel)))
           (List.product [centerY - halfSize .. centerY + halfSize] [centerX - halfSize .. centerX + halfSize])
           [])"

section \<open>The extraction pass (\<open>compute_features.cpp\<close>, main)\<close>






section \<open>Looking the target up by basename (findmatcheswithdeepnetwork.cpp, main)\<close>


section \<open>The feature store (\<open>compute_features.cpp\<close>, \<open>find_matches.cpp\<close>)\<close>



text \<open>
  \<open>getline(stream, s, delim)\<close> on the rest of a stream: it fails when nothing is left;
  otherwise it yields the characters before the first delimiter (or all of them) and
  leaves what follows that delimiter.
\<close>

definition getline :: "char \<Rightarrow> string \<Rightarrow> (string \<times> string) option" where
  "getline delim s =
     (if s = [] then None
      else Some (takeWhile (\<lambda>c. c \<noteq> delim) s, drop 1 (dropWhile (\<lambda>c. c \<noteq> delim) s)))"

lemma getline_shorter:
  assumes "getline delim s = Some (tok, rest)"
  shows "length rest < length s"
proof -
  have "s \<noteq> []" "rest = drop 1 (dropWhile (\<lambda>c. c \<noteq> delim) s)"
    using assms by (auto simp: getline_def split: if_splits)
  moreover have "length (dropWhile (\<lambda>c. c \<noteq> delim) s) \<le> length s"
    by (rule length_dropWhile_le)
  ultimately show ?thesis
    by (cases s) auto
qed

text \<open>
  \<open>while (getline(ss, value, ',')) featureVector.push_back(stof(value));\<close> where \<open>stof\<close>
  (a parameter; the library's is \<open>std_stof\<close> below) throws on text that is no number.
\<close>

function read_values :: "(string \<Rightarrow> float option) \<Rightarrow> string \<Rightarrow> error + float list" where
  "read_values stof ss =
     (case getline CHR '','' ss of
        None \<Rightarrow> Inr []
      | Some (value, rest) \<Rightarrow>
          (case stof value of
             None \<Rightarrow> Inl ParseError
           | Some v \<Rightarrow> bind_err (read_values stof rest) (\<lambda>vs. Inr (v # vs))))"
  by pat_completeness auto
termination
  by (relation "measure (\<lambda>(stof, ss). length ss)") (auto dest: getline_shorter)

text \<open>One line: \<open>getline(ss, filename, ',')\<close>, which leaves \<open>filename\<close> empty on an empty line.\<close>

definition read_record :: "(string \<Rightarrow> float option) \<Rightarrow> string \<Rightarrow> error + (string \<times> float list)" where
  "read_record stof line =
     (case getline CHR '','' line of
        None \<Rightarrow> Inr ([], [])
      | Some (filename, rest) \<Rightarrow> bind_err (read_values stof rest) (\<lambda>featureVector. Inr (filename, featureVector)))"

text \<open>\<open>while (getline(inFile, line)) { ... features.push_back(...) }\<close> over the file's text.\<close>

function readFeatureVectorsFromFile ::
  "(string \<Rightarrow> float option) \<Rightarrow> string \<Rightarrow> error + (string \<times> float list) list"
where
  "readFeatureVectorsFromFile stof inFile =
     (case getline (CHR 0x0A) inFile of
        None \<Rightarrow> Inr []
      | Some (line, rest) \<Rightarrow>
          bind_err (read_record stof line) (\<lambda>feature.
          bind_err (readFeatureVectorsFromFile stof rest) (\<lambda>features. Inr (feature # features))))"
  by pat_completeness auto
termination
  by (relation "measure (\<lambda>(stof, inFile). length inFile)") (auto dest: getline_shorter)


subsection \<open>The text of a float and its parser\<close>




























section \<open>Histogram extractors: bucket indices and totals\<close>

lemma sdiv_nonneg: "0 \<le> a \<Longrightarrow> 0 < b \<Longrightarrow> a sdiv b = a div (b::int)"
  by (cases "a = 0") (simp_all add: signed_divide_int_def sgn_if)

lemma uint_byte: "0 \<le> uint (c :: 8 word)" "uint (c :: 8 word) \<le> 255"
  using uint_lt2p [of c] by simp_all

lemma byte_prod_bounds:
  assumes "1 \<le> bins"
  shows "0 \<le> uint (c :: 8 word) * bins" "uint c * bins \<le> 255 * bins"
  using uint_byte [of c] assms by (simp_all add: mult_right_mono)

lemma binIndex_defined:
  assumes "1 \<le> bins" "bins \<le> 8421504"
  shows "binIndex c bins = Inr (min (uint c * bins div 256) (bins - 1))"
proof -
  have "0 \<le> uint c * bins" "uint c * bins \<le> 255 * bins"
    using byte_prod_bounds [OF assms(1)] by blast+
  then have "int_ok (uint c * bins)" "uint c * bins sdiv 256 = uint c * bins div 256"
    using assms(2) by (auto simp: int_ok_def sdiv_nonneg)
  moreover have "int_ok (bins - 1)"
    using assms by (simp add: int_ok_def)
  ultimately show ?thesis
    by (simp add: binIndex_def)
qed

lemma binIndex_value:
  assumes "1 \<le> bins" "binIndex c bins = Inr i"
  shows "i = min (uint c * bins div 256) (bins - 1)"
proof -
  have "0 \<le> uint c * bins"
    using byte_prod_bounds [OF assms(1)] by blast
  then have "uint c * bins sdiv 256 = uint c * bins div 256"
    by (simp add: sdiv_nonneg)
  then show ?thesis
    using assms(2) by (auto simp: binIndex_def split: if_splits)
qed

lemma bucket_range:
  assumes "1 \<le> bins" "0 < k"
  shows "0 \<le> min (uint (c :: 8 word) * bins div k) (bins - 1)"
    and "min (uint c * bins div k) (bins - 1) < bins"
proof -
  have "0 \<le> uint c * bins"
    using byte_prod_bounds [OF assms(1)] by blast
  then have "0 \<le> uint c * bins div k"
    using assms(2) by (simp add: pos_imp_zdiv_nonneg_iff)
  then show "0 \<le> min (uint c * bins div k) (bins - 1)"
    using assms(1) by simp
  show "min (uint c * bins div k) (bins - 1) < bins"
    by simp
qed

lemma flat3_range:
  assumes "0 \<le> r" "r < n" "0 \<le> g" "g < n" "0 \<le> b" "b < (n::int)"
  shows "0 \<le> (r * n + g) * n + b" "(r * n + g) * n + b < int (nat n ^ 3)"
proof -
  have n: "0 < n" using assms by simp
  show "0 \<le> (r * n + g) * n + b" using assms by simp
  have "r * n + g \<le> (n - 1) * n + (n - 1)"
    using assms by (intro add_mono mult_right_mono) auto
  then have "(r * n + g) * n \<le> ((n - 1) * n + (n - 1)) * n"
    using n by (intro mult_right_mono) auto
  then have "(r * n + g) * n + b < ((n - 1) * n + (n - 1)) * n + n"
    using assms by linarith
  also have "\<dots> = n ^ 3" by (simp add: algebra_simps power3_eq_cube)
  also have "\<dots> = int (nat n ^ 3)" using n by simp
  finally show "(r * n + g) * n + b < int (nat n ^ 3)" .
qed

lemma flat2_range:
  assumes "0 \<le> r" "r < n" "0 \<le> g" "g < (n::int)"
  shows "0 \<le> r * n + g" "r * n + g < int (nat n ^ 2)"
proof -
  have n: "0 < n" using assms by simp
  show "0 \<le> r * n + g" using assms by simp
  have "r * n \<le> (n - 1) * n"
    using assms by (intro mult_right_mono) auto
  then have "r * n + g < (n - 1) * n + n"
    using assms by linarith
  also have "\<dots> = n ^ 2" by (simp add: algebra_simps power2_eq_square)
  also have "\<dots> = int (nat n ^ 2)" using n by simp
  finally show "r * n + g < int (nat n ^ 2)" .
qed

lemma nth_le_sum_list: "k < length h \<Longrightarrow> h ! k \<le> sum_list (h :: nat list)"
  by (simp add: member_le_sum_list)

lemma sum_list_bump:
  assumes "k < length h" "sum_list h < 2 ^ 24"
  shows "sum_list (h[k := float_incr (h ! k)]) = Suc (sum_list h)"
proof -
  have "h ! k \<le> sum_list h"
    using assms(1) by (rule nth_le_sum_list)
  then have "float_incr (h ! k) = h ! k + 1"
    using assms(2) by (simp add: float_incr_def)
  then show ?thesis
    using assms(1) \<open>h ! k \<le> sum_list h\<close> by (simp add: sum_list_update)
qed

lemma fold_err_length:
  assumes step: "\<And>a h. a \<in> set as \<Longrightarrow> length h = n \<Longrightarrow>
            \<exists>k<n. f a h = Inr (h[k := float_incr (h ! k)])"
    and len: "length h0 = n"
  shows "\<exists>h'. fold_err f as h0 = Inr h' \<and> length h' = n"
  using assms
proof (induction as arbitrary: h0)
  case Nil
  then show ?case by simp
next
  case (Cons a as)
  obtain k where k: "k < n" "f a h0 = Inr (h0[k := float_incr (h0 ! k)])"
    using Cons.prems(1) [of a h0] Cons.prems(2) by auto
  have "\<exists>h'. fold_err f as (h0[k := float_incr (h0 ! k)]) = Inr h' \<and> length h' = n"
    using Cons.prems by (intro Cons.IH) auto
  then show ?case
    using k(2) by auto
qed

lemma hist_incr_bumps:
  assumes "0 \<le> off" "off < int (length h)"
  shows "\<exists>k<length h. hist_incr h off = Inr (h[k := float_incr (h ! k)])"
  using assms by (intro exI [of _ "nat off"]) (simp add: hist_incr_def)

lemma rgb_bin_step_bumps:
  assumes "1 \<le> bins" "bins \<le> 8421504" "length h = nat bins ^ 3"
  shows "\<exists>k<length h. rgb_bin_step bins p h = Inr (h[k := float_incr (h ! k)])"
proof -
  obtain b g r where p: "p = (b, g, r)"
    by (cases p) auto
  let ?i = "\<lambda>c. min (uint (c :: 8 word) * bins div 256) (bins - 1)"
  let ?off = "(?i r * bins + ?i g) * bins + ?i b"
  have "(0::int) < 256" by simp
  note R = bucket_range [OF assms(1) this]
  have "0 \<le> ?off"
    by (rule flat3_range(1) [OF R R R])
  moreover have "?off < int (length h)"
    unfolding assms(3) by (rule flat3_range(2) [OF R R R])
  ultimately have "\<exists>k<length h. hist_incr h ?off = Inr (h[k := float_incr (h ! k)])"
    by (rule hist_incr_bumps)
  then show ?thesis
    by (simp add: p rgb_bin_step_def bind_err_def binIndex_defined [OF assms(1,2)])
qed

lemma rgIndex_defined:
  assumes "1 \<le> bins" "bins < 2 ^ 31"
  shows "rgIndex c bins = Inr (min (uint c * bins div 255) (bins - 1))"
proof -
  have "0 \<le> uint c * bins"
    using byte_prod_bounds [OF assms(1)] by blast
  then have "uint c * bins sdiv 255 = uint c * bins div 255"
    by (simp add: sdiv_nonneg)
  moreover have "int_ok (bins - 1)"
    using assms by (simp add: int_ok_def)
  ultimately show ?thesis
    by (simp add: rgIndex_def)
qed

lemma rg_bin_step_bumps:
  assumes "1 \<le> bins" "bins < 2 ^ 31" "length h = nat bins ^ 2"
  shows "\<exists>k<length h. rg_bin_step bins p h = Inr (h[k := float_incr (h ! k)])"
proof -
  obtain b g r where p: "p = (b, g, r)"
    by (cases p) auto
  let ?i = "\<lambda>c. min (uint (c :: 8 word) * bins div 255) (bins - 1)"
  let ?off = "?i r * bins + ?i g"
  have "(0::int) < 255" by simp
  note R = bucket_range [OF assms(1) this]
  have "0 \<le> ?off"
    by (rule flat2_range(1) [OF R R])
  moreover have "?off < int (length h)"
    unfolding assms(3) by (rule flat2_range(2) [OF R R])
  ultimately have "\<exists>k<length h. hist_incr h ?off = Inr (h[k := float_incr (h ! k)])"
    by (rule hist_incr_bumps)
  then show ?thesis
    by (simp add: p rg_bin_step_def bind_err_def rgIndex_defined [OF assms(1,2)])
qed

lemma offset_range:
  assumes "0 \<le> y" "y < int r" "0 \<le> x" "x < int c"
  shows "0 \<le> y * int c + x" "y * int c + x < int (r * c)"
proof -
  show "0 \<le> y * int c + x" using assms by simp
  have "y * int c \<le> (int r - 1) * int c"
    using assms by (intro mult_right_mono) auto
  then have "y * int c + x < (int r - 1) * int c + int c"
    using assms by linarith
  also have "\<dots> = int (r * c)" by (simp add: algebra_simps)
  finally show "y * int c + x < int (r * c)" .
qed

lemma Mat_at_inside:
  assumes "wf_image img" "0 \<le> y" "y < int (rows img)" "0 \<le> x" "x < int (cols img)"
  shows "Mat_at img y x = Inr (pixels img ! nat (y * int (cols img) + x))"
  using offset_range [OF assms(2-5)] assms(1) by (simp add: Mat_at_def wf_image_def)

lemma length_scan: "length (List.product [a .. a + h - 1] [b .. b + w - 1]) = nat h * nat w"
  by simp

lemma scan_step_bumps:
  assumes img: "wf_image img"
    and body: "\<And>p h. length h = n \<Longrightarrow> \<exists>k<length h. body p h = Inr (h[k := float_incr (h ! k)])"
    and a: "a \<in> set (List.product [y0 .. y1] [x0 .. x1])"
    and inside: "0 \<le> y0" "y1 < int (rows img)" "0 \<le> x0" "x1 < int (cols img)"
    and len: "length h = n"
  shows "\<exists>k<n. (\<lambda>(y, x) h. bind_err (Mat_at img y x) (\<lambda>pixel. body pixel h)) a h
           = Inr (h[k := float_incr (h ! k)])"
proof -
  obtain y x where yx: "a = (y, x)" by (cases a) auto
  have "0 \<le> y" "y < int (rows img)" "0 \<le> x" "x < int (cols img)"
    using a inside by (auto simp: yx)
  then have "Mat_at img y x = Inr (pixels img ! nat (y * int (cols img) + x))"
    by (rule Mat_at_inside [OF img])
  then show ?thesis
    using body [OF len, of "pixels img ! nat (y * int (cols img) + x)"] len
    by (simp add: yx bind_err_def)
qed

lemma scan_returns:
  assumes img: "wf_image img"
    and body: "\<And>p h. length h = n \<Longrightarrow> \<exists>k<length h. body p h = Inr (h[k := float_incr (h ! k)])"
    and inside: "0 \<le> y0" "y0 + ht \<le> int (rows img)" "0 \<le> x0" "x0 + wd \<le> int (cols img)"
  shows "\<exists>h. fold_err (\<lambda>(y, x) h. bind_err (Mat_at img y x) (\<lambda>pixel. body pixel h))
               (List.product [y0 .. y0 + ht - 1] [x0 .. x0 + wd - 1]) (replicate n 0) = Inr h
             \<and> length h = n"
proof -
  let ?cs = "List.product [y0 .. y0 + ht - 1] [x0 .. x0 + wd - 1]"
  let ?f = "\<lambda>(y, x) h. bind_err (Mat_at img y x) (\<lambda>pixel. body pixel h)"
  have step: "\<exists>k<n. ?f a h = Inr (h[k := float_incr (h ! k)])"
    if "a \<in> set ?cs" "length h = n" for a h
    using img body that(1) _ _ _ _ that(2)
    by (rule scan_step_bumps) (use inside in auto)
  show ?thesis
    by (rule fold_err_length [where n = n]) (use step in simp_all)
qed

lemma computeRGBHistogram_returns:
  assumes "wf_image img" "1 \<le> bins" "bins \<le> 8421504"
  shows "\<exists>h. computeRGBHistogram img bins = Inr h"
proof -
  have "\<exists>h. fold_err (\<lambda>(y, x) h. bind_err (Mat_at img y x) (\<lambda>pixel. rgb_bin_step bins pixel h))
               (List.product [0 .. 0 + int (rows img) - 1] [0 .. 0 + int (cols img) - 1])
               (replicate (nat bins ^ 3) 0) = Inr h
             \<and> length h = nat bins ^ 3"
    using assms(1) rgb_bin_step_bumps [OF assms(2,3)]
    by (rule scan_returns) auto
  then show ?thesis
    using assms(2) by (auto simp: computeRGBHistogram_def new_hist3_def bind_err_def)
qed

lemma computeRGBHistogram_region_returns:
  assumes "wf_image img" "region_inside img region" "1 \<le> bins" "bins \<le> 8421504"
  shows "\<exists>h. computeRGBHistogram_region img bins region = Inr h"
proof -
  have ok: "int_ok (rect_y region + rect_height region)" "int_ok (rect_x region + rect_width region)"
    using assms(1,2) by (auto simp: region_inside_def wf_image_def int_ok_def)
  have "\<exists>h. fold_err (\<lambda>(y, x) h. bind_err (Mat_at img y x) (\<lambda>pixel. rgb_bin_step bins pixel h))
               (List.product [rect_y region .. rect_y region + rect_height region - 1]
                             [rect_x region .. rect_x region + rect_width region - 1])
               (replicate (nat bins ^ 3) 0) = Inr h
             \<and> length h = nat bins ^ 3"
    using assms(1) rgb_bin_step_bumps [OF assms(3,4)]
    by (rule scan_returns) (use assms(2) in \<open>auto simp: region_inside_def\<close>)
  then show ?thesis
    using assms(3) ok by (auto simp: computeRGBHistogram_region_def new_hist3_def bind_err_def)
qed

lemma computeRGChromaticityHistogram_returns:
  assumes "wf_image img" "1 \<le> bins" "bins < 2 ^ 31"
  shows "\<exists>h. computeRGChromaticityHistogram img bins = Inr h"
proof -
  have "\<exists>h. fold_err (\<lambda>(y, x) h. bind_err (Mat_at img y x) (\<lambda>pixel. rg_bin_step bins pixel h))
               (List.product [0 .. 0 + int (rows img) - 1] [0 .. 0 + int (cols img) - 1])
               (replicate (nat bins ^ 2) 0) = Inr h
             \<and> length h = nat bins ^ 2"
    using assms(1) rg_bin_step_bumps [OF assms(2,3)]
    by (rule scan_returns) auto
  then show ?thesis
    using assms(2) by (auto simp: computeRGChromaticityHistogram_def new_hist2_def bind_err_def)
qed

lemma fold_err_same_cell:
  assumes step: "\<And>a h. a \<in> set as \<Longrightarrow> length h = n \<Longrightarrow> f a h = Inr (h[k := float_incr (h ! k)])"
    and k: "k < n" and len: "length h0 = n" and start: "h0 ! k \<le> 2 ^ 24"
  shows "fold_err f as h0 = Inr (h0[k := min (h0 ! k + length as) (2 ^ 24)])"
  using assms
proof (induction as arbitrary: h0)
  case Nil
  then show ?case by (simp add: min_absorb1)
next
  case (Cons a as)
  let ?h1 = "h0[k := float_incr (h0 ! k)]"
  have fa: "f a h0 = Inr ?h1"
    using Cons.prems(1) [of a h0] Cons.prems(3) by simp
  have v: "?h1 ! k = float_incr (h0 ! k)" "length ?h1 = n"
    using Cons.prems(2,3) by simp_all
  have "float_incr (h0 ! k) \<le> 2 ^ 24"
    using Cons.prems(4) by (simp add: float_incr_def)
  then have le: "?h1 ! k \<le> 2 ^ 24"
    by (simp only: v)
  have "fold_err f as ?h1 = Inr (?h1[k := min (?h1 ! k + length as) (2 ^ 24)])"
    using Cons.prems(1,2) v(2) le by (intro Cons.IH) auto
  moreover have "min (float_incr (h0 ! k) + length as) (2 ^ 24) = min (h0 ! k + length (a # as)) (2 ^ 24)"
    using Cons.prems(4) by (simp add: float_incr_def)
  ultimately show ?case
    using fa by (simp add: v)
qed

lemma wf_solid_image: "int h < 2 ^ 31 \<Longrightarrow> int w < 2 ^ 31 \<Longrightarrow> wf_image (solid_image h w p)"
  by (simp add: wf_image_def solid_image_def int_ok_def)

lemma Mat_at_solid:
  assumes "0 \<le> y" "y < int h" "0 \<le> x" "x < int w"
  shows "Mat_at (solid_image h w p) y x = Inr p"
  using offset_range [OF assms] by (simp add: Mat_at_def solid_image_def nat_less_iff)

lemma computeRGBHistogram_solid:
  assumes bins: "1 \<le> bins" "bins \<le> 8421504"
    and ri: "ri = min (uint r * bins div 256) (bins - 1)"
    and gi: "gi = min (uint g * bins div 256) (bins - 1)"
    and bi: "bi = min (uint b * bins div 256) (bins - 1)"
  shows "computeRGBHistogram (solid_image h w (b, g, r)) bins =
           Inr ((replicate (nat bins ^ 3) 0)[nat ((ri * bins + gi) * bins + bi) := min (h * w) (2 ^ 24)])"
proof -
  let ?img = "solid_image h w (b, g, r)"
  let ?off = "(ri * bins + gi) * bins + bi"
  let ?n = "nat bins ^ 3"
  let ?f = "\<lambda>(y, x) hist. bind_err (Mat_at ?img y x) (\<lambda>pixel. rgb_bin_step bins pixel hist)"
  let ?cs = "List.product [0 .. int h - 1] [0 .. int w - 1]"
  have "(0::int) < 256" by simp
  note R = bucket_range [OF bins(1) this]
  have off: "0 \<le> ?off" "?off < int ?n"
    unfolding ri gi bi by (rule flat3_range(1) [OF R R R], rule flat3_range(2) [OF R R R])
  have step: "?f a hist = Inr (hist[nat ?off := float_incr (hist ! nat ?off)])"
    if "a \<in> set ?cs" "length hist = ?n" for a hist
  proof -
    obtain y x where yx: "a = (y, x)" by (cases a) auto
    have "Mat_at ?img y x = Inr (b, g, r)"
      using that(1) by (intro Mat_at_solid) (auto simp: yx)
    moreover have "rgb_bin_step bins (b, g, r) hist = hist_incr hist ?off"
      by (simp add: rgb_bin_step_def bind_err_def binIndex_defined [OF bins] ri gi bi)
    moreover have "hist_incr hist ?off = Inr (hist[nat ?off := float_incr (hist ! nat ?off)])"
      using off that(2) by (simp add: hist_incr_def)
    ultimately show ?thesis
      by (simp add: yx bind_err_def)
  qed
  have k: "nat ?off < ?n"
    using off by (simp add: nat_less_iff)
  have z: "replicate ?n (0::nat) ! nat ?off = 0"
    using k by simp
  have "fold_err ?f ?cs (replicate ?n 0) =
          Inr ((replicate ?n 0)[nat ?off := min (replicate ?n 0 ! nat ?off + length ?cs) (2 ^ 24)])"
    using step k by (rule fold_err_same_cell) (simp_all add: z)
  note this z
  moreover have "length ?cs = h * w"
    by simp
  moreover have "rows ?img = h" "cols ?img = w"
    by (simp_all add: solid_image_def)
  ultimately show ?thesis
    using bins(1) by (simp add: computeRGBHistogram_def new_hist3_def bind_err_def)
qed

lemma bind_err_Inr: "bind_err m f = Inr b \<longleftrightarrow> (\<exists>a. m = Inr a \<and> f a = Inr b)"
  by (cases m) (simp_all add: bind_err_def)

lemma hist_incr_Inr:
  assumes "hist_incr h off = Inr h'"
  shows "\<exists>k<length h. h' = h[k := float_incr (h ! k)]"
  using assms by (intro exI [of _ "nat off"]) (auto simp: hist_incr_def split: if_splits)

lemma rgb_bin_step_Inr:
  assumes "rgb_bin_step bins p h = Inr h'"
  shows "\<exists>k<length h. h' = h[k := float_incr (h ! k)]"
proof -
  obtain b g r where p: "p = (b, g, r)" by (cases p) auto
  from assms obtain off where "hist_incr h off = Inr h'"
    by (auto simp: p rgb_bin_step_def bind_err_Inr)
  then show ?thesis by (rule hist_incr_Inr)
qed

lemma rg_bin_step_Inr:
  assumes "rg_bin_step bins p h = Inr h'"
  shows "\<exists>k<length h. h' = h[k := float_incr (h ! k)]"
proof -
  obtain b g r where p: "p = (b, g, r)" by (cases p) auto
  from assms obtain off where "hist_incr h off = Inr h'"
    by (auto simp: p rg_bin_step_def bind_err_Inr)
  then show ?thesis by (rule hist_incr_Inr)
qed

lemma fold_err_count_Inr:
  assumes step: "\<And>a h h'. a \<in> set as \<Longrightarrow> f a h = Inr h' \<Longrightarrow> \<exists>k<length h. h' = h[k := float_incr (h ! k)]"
    and res: "fold_err f as h0 = Inr hn"
    and room: "sum_list h0 + length as \<le> 2 ^ 24"
  shows "length hn = length h0 \<and> sum_list hn = sum_list h0 + length as"
  using assms
proof (induction as arbitrary: h0)
  case Nil
  then show ?case by simp
next
  case (Cons a as)
  from Cons.prems(2) obtain h1 where h1: "f a h0 = Inr h1" "fold_err f as h1 = Inr hn"
    by (auto split: sum.splits)
  obtain k where k: "k < length h0" "h1 = h0[k := float_incr (h0 ! k)]"
    using Cons.prems(1) [of a h0 h1] h1(1) by auto
  have s1: "sum_list h1 = Suc (sum_list h0)"
    unfolding k(2) using k(1) Cons.prems(3) by (intro sum_list_bump) auto
  have "length hn = length h1 \<and> sum_list hn = sum_list h1 + length as"
    using Cons.prems(1) h1(2) Cons.prems(3) s1 by (intro Cons.IH) auto
  then show ?case
    using s1 k(2) by simp
qed

lemma scan_sum_Inr:
  assumes body: "\<And>p h h'. body p h = Inr h' \<Longrightarrow> \<exists>k<length h. h' = h[k := float_incr (h ! k)]"
    and res: "fold_err (\<lambda>(y, x) h. bind_err (Mat_at img y x) (\<lambda>pixel. body pixel h))
               (List.product [y0 .. y0 + ht - 1] [x0 .. x0 + wd - 1]) (replicate n 0) = Inr hn"
    and room: "nat ht * nat wd \<le> 2 ^ 24"
  shows "length hn = n \<and> sum_list hn = nat ht * nat wd"
proof -
  let ?cs = "List.product [y0 .. y0 + ht - 1] [x0 .. x0 + wd - 1]"
  let ?f = "\<lambda>(y, x) h. bind_err (Mat_at img y x) (\<lambda>pixel. body pixel h)"
  have step: "\<exists>k<length h. h' = h[k := float_incr (h ! k)]" if "?f a h = Inr h'" for a h h'
    using that body by (cases a) (auto simp: bind_err_Inr)
  have "length hn = length (replicate n (0::nat))
          \<and> sum_list hn = sum_list (replicate n (0::nat)) + length ?cs"
    using step res by (rule fold_err_count_Inr) (use room in \<open>auto simp: sum_list_replicate\<close>)
  then show ?thesis
    by (simp add: sum_list_replicate)
qed

lemma computeRGBHistogram_Inr_sum:
  assumes "computeRGBHistogram img bins = Inr h" "rows img * cols img \<le> 2 ^ 24"
  shows "sum_list h = rows img * cols img"
proof -
  from assms(1) have "fold_err (\<lambda>(y, x) h. bind_err (Mat_at img y x) (\<lambda>pixel. rgb_bin_step bins pixel h))
       (List.product [0 .. 0 + int (rows img) - 1] [0 .. 0 + int (cols img) - 1]) (replicate (nat bins ^ 3) 0) = Inr h"
    by (auto simp: computeRGBHistogram_def new_hist3_def bind_err_Inr split: if_splits)
  with rgb_bin_step_Inr have "length h = nat bins ^ 3 \<and> sum_list h = nat (int (rows img)) * nat (int (cols img))"
    by (rule scan_sum_Inr) (use assms(2) in auto)
  then show ?thesis by simp
qed

lemma computeRGBHistogram_region_Inr_sum:
  assumes "computeRGBHistogram_region img bins region = Inr h"
    "nat (rect_height region) * nat (rect_width region) \<le> 2 ^ 24"
  shows "sum_list h = nat (rect_height region) * nat (rect_width region)"
proof -
  from assms(1) have "fold_err (\<lambda>(y, x) h. bind_err (Mat_at img y x) (\<lambda>pixel. rgb_bin_step bins pixel h))
       (List.product [rect_y region .. rect_y region + rect_height region - 1]
                     [rect_x region .. rect_x region + rect_width region - 1]) (replicate (nat bins ^ 3) 0) = Inr h"
    by (auto simp: computeRGBHistogram_region_def new_hist3_def bind_err_Inr split: if_splits)
  with rgb_bin_step_Inr have "length h = nat bins ^ 3 \<and> sum_list h = nat (rect_height region) * nat (rect_width region)"
    by (rule scan_sum_Inr) (use assms(2) in auto)
  then show ?thesis by simp
qed

lemma computeRGChromaticityHistogram_Inr_sum:
  assumes "computeRGChromaticityHistogram img bins = Inr h" "rows img * cols img \<le> 2 ^ 24"
  shows "sum_list h = rows img * cols img"
proof -
  from assms(1) have "fold_err (\<lambda>(y, x) h. bind_err (Mat_at img y x) (\<lambda>pixel. rg_bin_step bins pixel h))
       (List.product [0 .. 0 + int (rows img) - 1] [0 .. 0 + int (cols img) - 1]) (replicate (nat bins ^ 2) 0) = Inr h"
    by (auto simp: computeRGChromaticityHistogram_def new_hist2_def bind_err_Inr split: if_splits)
  with rg_bin_step_Inr have "length h = nat bins ^ 2 \<and> sum_list h = nat (int (rows img)) * nat (int (cols img))"
    by (rule scan_sum_Inr) (use assms(2) in auto)
  then show ?thesis by simp
qed

lemma byte_of_int: "0 \<le> v \<Longrightarrow> v \<le> 255 \<Longrightarrow> uint (word_of_int v :: 8 word) = v"
  by (simp add: uint_word_of_int take_bit_int_eq_self)

lemma red_cell_index:
  assumes "0 \<le> i" "i < 8" "0 \<le> j" "j < 8" "0 \<le> k" "k < (8::int)"
  shows "(i * 8 + j) * 8 + k = 448 \<longleftrightarrow> i = 7 \<and> j = 0 \<and> k = 0"
proof
  assume "(i * 8 + j) * 8 + k = 448"
  then have e: "64 * i + 8 * j + k = 448"
    by (simp add: algebra_simps)
  have "i = 7" using e assms by linarith
  moreover have "j = 0" using e assms \<open>i = 7\<close> by linarith
  moreover have "k = 0" using e assms \<open>i = 7\<close> \<open>j = 0\<close> by linarith
  ultimately show "i = 7 \<and> j = 0 \<and> k = 0" by simp
next
  assume "i = 7 \<and> j = 0 \<and> k = 0"
  then show "(i * 8 + j) * 8 + k = 448" by simp
qed

lemma red_cell:
  assumes "0 \<le> i" "i < 8" "0 \<le> j" "j < 8" "0 \<le> k" "k < (8::int)"
  shows "hist_at3 ((replicate 512 0)[448 := 16]) 8 i j k = (if i = 7 \<and> j = 0 \<and> k = 0 then 16 else 0)"
proof -
  have "nat ((i * 8 + j) * 8 + k) < 512"
    using assms by simp
  moreover have "nat ((i * 8 + j) * 8 + k) = 448 \<longleftrightarrow> i = 7 \<and> j = 0 \<and> k = 0"
    using red_cell_index [OF assms] assms by (simp add: nat_eq_iff)
  ultimately show ?thesis
    by (simp add: hist_at3_def nth_list_update)
qed

text \<open>
  Claim C1. For every channel value \<open>v\<close> in \<open>[0, 255]\<close> and every bin count \<open>bins \<ge> 1\<close>,
  the bucket index the 3-D colour histogram assigns is \<open>floor (v * bins / 256)\<close> clamped to
  \<open>bins - 1\<close>: whenever the extractor assigns an index it is this one, and it assigns one
  for every \<open>bins\<close> up to \<open>8421504\<close>, the largest for which \<open>255 * bins\<close> is an \<open>int\<close>
  (a histogram of more bins per axis, \<open>bins^3\<close> floats, could not be held in memory).
  On the solid red \<open>4 \<times> 4\<close> image with \<open>bins = 8\<close> the count histogram has \<open>16\<close> in
  bucket \<open>(7, 0, 0)\<close> and \<open>0\<close> in every other bucket.
\<close>

theorem C1_bucket_index:
  "(\<forall>v bins. 0 \<le> v \<and> v \<le> 255 \<and> 1 \<le> bins \<and> bins \<le> 8421504 \<longrightarrow>
      binIndex (word_of_int v) bins = Inr (min (v * bins div 256) (bins - 1)))
   \<and> (\<forall>v bins i. 0 \<le> v \<and> v \<le> 255 \<and> 1 \<le> bins \<and> binIndex (word_of_int v) bins = Inr i \<longrightarrow>
      i = min (v * bins div 256) (bins - 1))
   \<and> (\<exists>h. computeRGBHistogram (solid_image 4 4 (0, 0, 255)) 8 = Inr h \<and> length h = 512 \<and>
        (\<forall>i j k. 0 \<le> i \<and> i < 8 \<and> 0 \<le> j \<and> j < 8 \<and> 0 \<le> k \<and> k < 8 \<longrightarrow>
           hist_at3 h 8 i j k = (if i = 7 \<and> j = 0 \<and> k = 0 then 16 else 0)))"
proof (intro conjI allI impI)
  fix v bins :: int
  assume "0 \<le> v \<and> v \<le> 255 \<and> 1 \<le> bins \<and> bins \<le> 8421504"
  then show "binIndex (word_of_int v) bins = Inr (min (v * bins div 256) (bins - 1))"
    using binIndex_defined [of bins "word_of_int v"] by (simp add: byte_of_int)
next
  fix v bins i :: int
  assume "0 \<le> v \<and> v \<le> 255 \<and> 1 \<le> bins \<and> binIndex (word_of_int v) bins = Inr i"
  then show "i = min (v * bins div 256) (bins - 1)"
    using binIndex_value [of bins "word_of_int v" i] by (simp add: byte_of_int)
next
  have "computeRGBHistogram (solid_image 4 4 (0, 0, 255)) 8 = Inr ((replicate 512 0)[448 := 16])"
    using computeRGBHistogram_solid [of 8 7 255 0 0 0 0 4 4] by simp
  then show "\<exists>h. computeRGBHistogram (solid_image 4 4 (0, 0, 255)) 8 = Inr h \<and> length h = 512 \<and>
        (\<forall>i j k. 0 \<le> i \<and> i < 8 \<and> 0 \<le> j \<and> j < 8 \<and> 0 \<le> k \<and> k < 8 \<longrightarrow>
           hist_at3 h 8 i j k = (if i = 7 \<and> j = 0 \<and> k = 0 then 16 else 0))"
    using red_cell by (intro exI [of _ "(replicate 512 0)[448 := 16]"]) simp
qed

theorem C1_bucket_index_witness:
  "binIndex (word_of_int 255) 8 = Inr 7 \<and> binIndex (word_of_int 100) 8 = Inr 3
   \<and> binIndex (word_of_int 0) 8 = Inr 0"
proof -
  note idx = C1_bucket_index [THEN conjunct1, rule_format]
  have "binIndex (word_of_int 255) 8 = Inr (min (255 * 8 div 256) (8 - 1))"
    by (rule idx) simp
  moreover have "binIndex (word_of_int 100) 8 = Inr (min (100 * 8 div 256) (8 - 1))"
    by (rule idx) simp
  moreover have "binIndex (word_of_int 0) 8 = Inr (min (0 * 8 div 256) (8 - 1))"
    by (rule idx) simp
  ultimately show ?thesis by simp
qed

text \<open>
  Claim C10, as amended. Whenever the 3-D colour histogram (of an image, or of a region)
  or the 2-D rg chromaticity histogram is returned and at most \<open>2^24\<close> pixels were scanned,
  the buckets of the count histogram sum to the number of pixels scanned. The histogram
  is returned for every well-formed image (and region inside it) and every bin count from
  \<open>1\<close> up to \<open>8421504\<close> (3-D, the range in which \<open>255 * bins\<close> is an \<open>int\<close>) or up to
  \<open>2^24\<close> (2-D, the range in which \<open>bins\<close> is converted to \<open>float\<close> exactly).
\<close>

theorem C10_count_total:
  "(\<forall>img bins h. computeRGBHistogram img bins = Inr h \<and> rows img * cols img \<le> 2 ^ 24 \<longrightarrow>
      sum_list h = rows img * cols img)
   \<and> (\<forall>img bins region h. computeRGBHistogram_region img bins region = Inr h \<and>
        nat (rect_height region) * nat (rect_width region) \<le> 2 ^ 24 \<longrightarrow>
      sum_list h = nat (rect_height region) * nat (rect_width region))
   \<and> (\<forall>img bins h. computeRGChromaticityHistogram img bins = Inr h \<and> rows img * cols img \<le> 2 ^ 24 \<longrightarrow>
      sum_list h = rows img * cols img)
   \<and> (\<forall>img bins. wf_image img \<and> 1 \<le> bins \<and> bins \<le> 8421504 \<longrightarrow>
        (\<exists>h. computeRGBHistogram img bins = Inr h))
   \<and> (\<forall>img bins region. wf_image img \<and> region_inside img region \<and> 1 \<le> bins \<and> bins \<le> 8421504 \<longrightarrow>
        (\<exists>h. computeRGBHistogram_region img bins region = Inr h))
   \<and> (\<forall>img bins. wf_image img \<and> 1 \<le> bins \<and> bins \<le> 16777216 \<longrightarrow>
        (\<exists>h. computeRGChromaticityHistogram img bins = Inr h))"
proof (intro conjI allI impI)
  fix img :: image and bins :: int and h :: "nat list"
  assume "computeRGBHistogram img bins = Inr h \<and> rows img * cols img \<le> 2 ^ 24"
  then show "sum_list h = rows img * cols img"
    using computeRGBHistogram_Inr_sum by blast
next
  fix img :: image and bins :: int and region :: Rect and h :: "nat list"
  assume "computeRGBHistogram_region img bins region = Inr h \<and>
        nat (rect_height region) * nat (rect_width region) \<le> 2 ^ 24"
  then show "sum_list h = nat (rect_height region) * nat (rect_width region)"
    using computeRGBHistogram_region_Inr_sum by blast
next
  fix img :: image and bins :: int and h :: "nat list"
  assume "computeRGChromaticityHistogram img bins = Inr h \<and> rows img * cols img \<le> 2 ^ 24"
  then show "sum_list h = rows img * cols img"
    using computeRGChromaticityHistogram_Inr_sum by blast
next
  fix img :: image and bins :: int
  assume "wf_image img \<and> 1 \<le> bins \<and> bins \<le> 8421504"
  then show "\<exists>h. computeRGBHistogram img bins = Inr h"
    using computeRGBHistogram_returns by blast
next
  fix img :: image and bins :: int and region :: Rect
  assume "wf_image img \<and> region_inside img region \<and> 1 \<le> bins \<and> bins \<le> 8421504"
  then show "\<exists>h. computeRGBHistogram_region img bins region = Inr h"
    using computeRGBHistogram_region_returns by blast
next
  fix img :: image and bins :: int
  assume "wf_image img \<and> 1 \<le> bins \<and> bins \<le> 16777216"
  then show "\<exists>h. computeRGChromaticityHistogram img bins = Inr h"
    using computeRGChromaticityHistogram_returns [of img bins] by simp
qed

theorem C10_count_total_witness:
  "wf_image (solid_image 4 4 (0, 0, 255))
   \<and> (\<exists>h. computeRGBHistogram (solid_image 4 4 (0, 0, 255)) 8 = Inr h \<and> sum_list h = 16)"
proof -
  have wf: "wf_image (solid_image 4 4 (0, 0, 255))"
    by (rule wf_solid_image) simp_all
  have "\<exists>h. computeRGBHistogram (solid_image 4 4 (0, 0, 255)) 8 = Inr h"
    by (rule C10_count_total [THEN conjunct2, THEN conjunct2, THEN conjunct2, THEN conjunct1, rule_format])
      (use wf in simp)
  then obtain h where h: "computeRGBHistogram (solid_image 4 4 (0, 0, 255)) 8 = Inr h"
    by blast
  have "rows (solid_image 4 4 (0, 0, 255)) * cols (solid_image 4 4 (0, 0, 255)) = 16"
    by (simp add: solid_image_def)
  then have "sum_list h = 16"
    using C10_count_total [THEN conjunct1, rule_format, of "solid_image 4 4 (0, 0, 255)" 8 h] h by simp
  then show ?thesis
    using wf h by simp
qed

text \<open>
  A solid black image of \<open>4097 \<times> 4097 = 16785409\<close> pixels: every pixel falls into bucket
  \<open>(0, 0, 0)\<close>, whose float counter stops at \<open>2^24 = 16777216\<close>.
\<close>

theorem C10_counterexample:
  "wf_image (solid_image 4097 4097 (0, 0, 0))
   \<and> rows (solid_image 4097 4097 (0, 0, 0)) * cols (solid_image 4097 4097 (0, 0, 0)) = 16785409
   \<and> (\<exists>h. computeRGBHistogram (solid_image 4097 4097 (0, 0, 0)) 8 = Inr h \<and> sum_list h = 16777216)"
proof -
  have "computeRGBHistogram (solid_image 4097 4097 (0, 0, 0)) 8 = Inr ((replicate 512 0)[0 := 16777216])"
    using computeRGBHistogram_solid [of 8 0 0 0 0 0 0 4097 4097] by simp
  moreover have "sum_list ((replicate 512 0)[0 := 16777216 :: nat]) = 16777216"
    by (simp add: sum_list_update sum_list_replicate)
  moreover have "wf_image (solid_image 4097 4097 (0, 0, 0))"
    by (rule wf_solid_image) simp_all
  moreover have "rows (solid_image 4097 4097 (0, 0, 0)) * cols (solid_image 4097 4097 (0, 0, 0)) = 16785409"
    by (simp add: solid_image_def)
  ultimately show ?thesis
    by blast
qed

section \<open>Normalizer and distance metrics\<close>

lemma foldl_fadd_Fin: "foldl fadd (Fin a) (map Fin xs) = Fin (a + sum_list xs)"
  by (induction xs arbitrary: a) (simp_all add: add.assoc)

lemma fsum_Fin: "fsum (map Fin xs) = Fin (sum_list xs)"
  by (simp add: fsum_def foldl_fadd_Fin)

lemma normalizeHistogram_length:
  "\<exists>v. normalizeHistogram h = Inr v \<and> length v = length h"
  by (simp add: normalizeHistogram_def Let_def)

lemma normalizeHistogram_Fin:
  assumes "sum_list xs \<noteq> 0"
  shows "normalizeHistogram (map Fin xs) = Inr (map (\<lambda>x. Fin (x / sum_list xs)) xs)"
  using assms by (simp add: normalizeHistogram_def fsum_Fin Let_def)

lemma sum_list_scaled:
  assumes "sum_list xs \<noteq> (0::real)"
  shows "sum_list (map (\<lambda>x. x / sum_list xs) xs) = 1"
proof -
  have "sum_list (map (\<lambda>x. x / sum_list xs) xs) = sum_list (map (\<lambda>x. x * inverse (sum_list xs)) xs)"
    by (simp add: divide_inverse)
  also have "\<dots> = sum_list xs * inverse (sum_list xs)"
    by (simp add: sum_list_mult_const)
  also have "\<dots> = 1"
    using assms by simp
  finally show ?thesis .
qed

lemma normalizeHistogram_zero_sum:
  assumes "sum_list xs = 0"
  shows "normalizeHistogram (map Fin xs) =
           Inr (map (\<lambda>x. if x = 0 then NaN else if 0 < x then PInf else NInf) xs)"
  using assms by (simp add: normalizeHistogram_def fsum_Fin Let_def inf_of_sign_def)

lemma normalizeHistogram_all_zero:
  "normalizeHistogram (replicate n (Fin 0)) = Inr (replicate n NaN)"
  using normalizeHistogram_zero_sum [of "replicate n 0"] by (simp add: sum_list_replicate)

lemma fmin_Fin: "fmin (Fin x) (Fin y) = Fin (min x y)"
  by (simp add: fmin_def min_def)

lemma map2_fmin_Fin: "map2 fmin (map Fin a) (map Fin b) = map Fin (map2 min a b)"
  by (induction a arbitrary: b) (auto simp: fmin_Fin split: list.splits, case_tac b, auto simp: fmin_Fin)

lemma sum_list_map2:
  assumes "length a = length b"
  shows "sum_list (map2 f a b) = (\<Sum>i<length a. f (a ! i) (b ! i))"
  using assms
proof (induction a b rule: list_induct2)
  case Nil
  then show ?case by simp
next
  case (Cons x xs y ys)
  have "(\<Sum>i<Suc (length xs). f ((x # xs) ! i) ((y # ys) ! i)) =
          f x y + (\<Sum>i<length xs. f (xs ! i) (ys ! i))"
    by (subst sum.lessThan_Suc_shift) simp
  then show ?case
    using Cons by simp
qed

lemma computeHistogramIntersection_Fin:
  assumes "length a = length b"
  shows "computeHistogramIntersection (map Fin a) (map Fin b) = Inr (Fin (spec_HistogramIntersection a b))"
proof -
  have "fsum (map2 fmin (map Fin a) (map Fin b)) = Fin (sum_list (map2 min a b))"
    by (simp only: map2_fmin_Fin fsum_Fin)
  also have "sum_list (map2 min a b) = spec_HistogramIntersection a b"
    unfolding spec_HistogramIntersection_def using assms by (rule sum_list_map2)
  finally show ?thesis
    using assms by (simp add: computeHistogramIntersection_def)
qed

lemma cosine_sums_Fin_gen:
  "foldl (\<lambda>(dotProduct, normV1, normV2) (a, b).
              (fadd dotProduct (fmul a b), fadd normV1 (fmul a a), fadd normV2 (fmul b b)))
       (Fin d, Fin m, Fin n) (zip (map Fin a) (map Fin b)) =
   (Fin (d + sum_list (map2 (*) a b)), Fin (m + sum_list (map2 (\<lambda>x y. x * x) a b)),
    Fin (n + sum_list (map2 (\<lambda>x y. y * y) a b)))"
proof (induction a arbitrary: b d m n)
  case Nil
  then show ?case by simp
next
  case (Cons x xs)
  then show ?case
    by (cases b) (simp_all add: add.assoc)
qed

lemma cosine_sums_Fin:
  assumes "length a = length b"
  shows "cosine_sums (map Fin a) (map Fin b) =
           (Fin (\<Sum>i<length a. a ! i * b ! i), Fin (\<Sum>i<length a. (a ! i)\<^sup>2),
            Fin (\<Sum>i<length b. (b ! i)\<^sup>2))"
  using assms
  by (simp add: cosine_sums_def cosine_sums_Fin_gen sum_list_map2 power2_eq_square)

lemma zero_norm_dot:
  assumes "(\<Sum>i<(n::nat). (f i :: real)\<^sup>2) = 0"
  shows "(\<Sum>i<n. f i * g i) = 0"
proof -
  have "(\<Sum>i<n. (f i)\<^sup>2) = 0 \<longleftrightarrow> (\<forall>i\<in>{..<n}. (f i)\<^sup>2 = 0)"
    by (rule sum_nonneg_eq_0_iff) simp_all
  then have "\<forall>i\<in>{..<n}. (f i)\<^sup>2 = 0"
    using assms by blast
  then show ?thesis by simp
qed

lemma computeCosineDistance_Fin:
  assumes "length a = length b"
  shows "computeCosineDistance (map Fin a) (map Fin b) =
           Inr (if spec_norm a * spec_norm b = 0 then NaN else Fin (spec_CosineDistance a b))"
proof -
  let ?d = "\<Sum>i<length a. a ! i * b ! i"
  let ?m = "\<Sum>i<length a. (a ! i)\<^sup>2"
  let ?n = "\<Sum>i<length b. (b ! i)\<^sup>2"
  have nonneg: "0 \<le> ?m" "0 \<le> ?n"
    by (simp_all add: sum_nonneg)
  have zero: "?d = 0" if "sqrt ?m * sqrt ?n = 0"
  proof -
    from that have "?m = 0 \<or> ?n = 0" by simp
    then show ?thesis
    proof
      assume "?m = 0"
      then show ?thesis by (rule zero_norm_dot)
    next
      assume "?n = 0"
      then have "(\<Sum>i<length b. b ! i * a ! i) = 0" by (rule zero_norm_dot)
      then show ?thesis using assms by (simp add: mult.commute)
    qed
  qed
  have "computeCosineDistance (map Fin a) (map Fin b) =
          Inr (fsub (Fin 1) (fdiv (Fin ?d) (Fin (sqrt ?m * sqrt ?n))))"
    using assms nonneg by (simp add: computeCosineDistance_def cosine_sums_Fin)
  also have "fsub (Fin 1) (fdiv (Fin ?d) (Fin (sqrt ?m * sqrt ?n))) =
          (if sqrt ?m * sqrt ?n = 0 then NaN else Fin (1 - ?d / (sqrt ?m * sqrt ?n)))"
    using zero by (auto simp: fsub_def inf_of_sign_def)
  finally show ?thesis
    by (simp add: spec_CosineDistance_def spec_norm_def)
qed

lemma computeCombinedDistance_Inr:
  assumes "computeHistogramIntersection c1 c2 = Inr ci"
    "computeHistogramIntersection t1 t2 = Inr ti"
    "computeCosineDistance d1 d2 = Inr dd"
  shows "computeCombinedDistance c1 c2 t1 t2 d1 d2 =
           Inr (fadd (fadd (fmul (Fin (4 / 10)) (fsub (Fin 1) ci)) (fmul (Fin (3 / 10)) (fsub (Fin 1) ti)))
                     (fmul (Fin (3 / 10)) dd))"
  using assms by (simp add: computeCombinedDistance_def bind_err_def)

text \<open>
  Claim C7. For every non-negative histogram whose elements sum to a positive number,
  the normalizer returns a new vector of the same length whose elements are the input's
  elements divided by the sum; they are non-negative and sum to \<open>1\<close> (within \<open>10^-5\<close>).
\<close>

theorem C7_normalizer:
  assumes "\<forall>x\<in>set xs. 0 \<le> x" "0 < sum_list xs"
  shows "normalizeHistogram (map Fin xs) = Inr (map (\<lambda>x. Fin (x / sum_list xs)) xs)
         \<and> length (map (\<lambda>x. x / sum_list xs) xs) = length xs
         \<and> (\<forall>y\<in>set (map (\<lambda>x. x / sum_list xs) xs). 0 \<le> y)
         \<and> \<bar>sum_list (map (\<lambda>x. x / sum_list xs) xs) - 1\<bar> < 1 / 100000"
proof -
  have nz: "sum_list xs \<noteq> 0"
    using assms(2) by simp
  have "\<forall>y\<in>set (map (\<lambda>x. x / sum_list xs) xs). 0 \<le> y"
    using assms by (auto intro!: divide_nonneg_pos)
  then show ?thesis
    using normalizeHistogram_Fin [OF nz] sum_list_scaled [OF nz] by simp
qed

theorem C7_normalizer_witness:
  "normalizeHistogram [Fin 1, Fin 3] = Inr [Fin (1 / 4), Fin (3 / 4)]"
  using C7_normalizer [of "[1, 3]"] by simp

text \<open>
  Claim C8, as amended. The normalizer never fails: for every input it returns a vector
  of the same length. For an all-zero histogram every element of that vector is \<open>NaN\<close>,
  the value of \<open>0 * (1 / 0)\<close>.
\<close>

theorem C8_normalizer_never_fails:
  "(\<exists>v. normalizeHistogram h = Inr v \<and> length v = length h)
   \<and> normalizeHistogram (replicate n (Fin 0)) = Inr (replicate n NaN)"
  using normalizeHistogram_length [of h] normalizeHistogram_all_zero [of n] by simp

text \<open>An all-zero histogram of two buckets: the normalizer returns a vector, no error.\<close>

theorem C8_counterexample:
  "fsum [Fin 0, Fin 0] = Fin 0
   \<and> normalizeHistogram [Fin 0, Fin 0] = Inr [NaN, NaN]
   \<and> normalizeHistogram [Fin 0, Fin 0] \<noteq> Inl DivideByZero"
  by (simp add: normalizeHistogram_def fsum_def inf_of_sign_def)

text \<open>
  Claim C2. The combined distance is \<open>0.4 * (1 - HistogramIntersection)\<close> of the colour
  histograms plus \<open>0.3 * (1 - HistogramIntersection)\<close> of the texture histograms plus
  \<open>0.3 * CosineDistance\<close> of the deep features: in the specification's sums for vectors
  of matching length (\<open>NaN\<close> when a deep feature has norm \<open>0\<close>), and as the same
  combination of whatever the two metrics of the code return; for the sub-distances
  \<open>0.5\<close>, \<open>0.2\<close> and \<open>0.1\<close> it is \<open>0.29\<close>.
\<close>

theorem C2_combined_distance:
  "(\<forall>c1 c2 t1 t2 d1 d2.
      length c1 = length c2 \<and> length t1 = length t2 \<and> length d1 = length d2 \<longrightarrow>
      computeCombinedDistance (map Fin c1) (map Fin c2) (map Fin t1) (map Fin t2) (map Fin d1) (map Fin d2) =
        Inr (if spec_norm d1 * spec_norm d2 = 0 then NaN
             else Fin (0.4 * (1 - spec_HistogramIntersection c1 c2)
                       + 0.3 * (1 - spec_HistogramIntersection t1 t2)
                       + 0.3 * spec_CosineDistance d1 d2)))
   \<and> (\<forall>c1 c2 t1 t2 d1 d2 ci ti dd.
      computeHistogramIntersection c1 c2 = Inr ci \<and> computeHistogramIntersection t1 t2 = Inr ti \<and>
      computeCosineDistance d1 d2 = Inr dd \<longrightarrow>
      computeCombinedDistance c1 c2 t1 t2 d1 d2 =
        Inr (fadd (fadd (fmul (Fin (4 / 10)) (fsub (Fin 1) ci)) (fmul (Fin (3 / 10)) (fsub (Fin 1) ti)))
                  (fmul (Fin (3 / 10)) dd)))
   \<and> (\<forall>c1 c2 t1 t2 d1 d2.
      computeHistogramIntersection c1 c2 = Inr (Fin (1 - 0.5)) \<and>
      computeHistogramIntersection t1 t2 = Inr (Fin (1 - 0.2)) \<and>
      computeCosineDistance d1 d2 = Inr (Fin 0.1) \<longrightarrow>
      computeCombinedDistance c1 c2 t1 t2 d1 d2 = Inr (Fin 0.29))"
proof (intro conjI allI impI)
  fix c1 c2 t1 t2 d1 d2 :: "real list"
  assume len: "length c1 = length c2 \<and> length t1 = length t2 \<and> length d1 = length d2"
  then have "computeHistogramIntersection (map Fin c1) (map Fin c2) = Inr (Fin (spec_HistogramIntersection c1 c2))"
    "computeHistogramIntersection (map Fin t1) (map Fin t2) = Inr (Fin (spec_HistogramIntersection t1 t2))"
    "computeCosineDistance (map Fin d1) (map Fin d2) =
       Inr (if spec_norm d1 * spec_norm d2 = 0 then NaN else Fin (spec_CosineDistance d1 d2))"
    by (simp_all add: computeHistogramIntersection_Fin computeCosineDistance_Fin)
  then have "computeCombinedDistance (map Fin c1) (map Fin c2) (map Fin t1) (map Fin t2) (map Fin d1) (map Fin d2) =
      Inr (fadd (fadd (fmul (Fin (4 / 10)) (fsub (Fin 1) (Fin (spec_HistogramIntersection c1 c2))))
                      (fmul (Fin (3 / 10)) (fsub (Fin 1) (Fin (spec_HistogramIntersection t1 t2)))))
                (fmul (Fin (3 / 10)) (if spec_norm d1 * spec_norm d2 = 0 then NaN else Fin (spec_CosineDistance d1 d2))))"
    by (rule computeCombinedDistance_Inr)
  then show "computeCombinedDistance (map Fin c1) (map Fin c2) (map Fin t1) (map Fin t2) (map Fin d1) (map Fin d2) =
        Inr (if spec_norm d1 * spec_norm d2 = 0 then NaN
             else Fin (0.4 * (1 - spec_HistogramIntersection c1 c2)
                       + 0.3 * (1 - spec_HistogramIntersection t1 t2)
                       + 0.3 * spec_CosineDistance d1 d2))"
    by (simp add: fsub_def)
next
  fix c1 c2 t1 t2 d1 d2 ci ti dd
  assume "computeHistogramIntersection c1 c2 = Inr ci \<and> computeHistogramIntersection t1 t2 = Inr ti \<and>
      computeCosineDistance d1 d2 = Inr dd"
  then show "computeCombinedDistance c1 c2 t1 t2 d1 d2 =
        Inr (fadd (fadd (fmul (Fin (4 / 10)) (fsub (Fin 1) ci)) (fmul (Fin (3 / 10)) (fsub (Fin 1) ti)))
                  (fmul (Fin (3 / 10)) dd))"
    by (simp add: computeCombinedDistance_Inr)
next
  fix c1 c2 t1 t2 d1 d2
  assume "computeHistogramIntersection c1 c2 = Inr (Fin (1 - 0.5)) \<and>
      computeHistogramIntersection t1 t2 = Inr (Fin (1 - 0.2)) \<and>
      computeCosineDistance d1 d2 = Inr (Fin 0.1)"
  then show "computeCombinedDistance c1 c2 t1 t2 d1 d2 = Inr (Fin 0.29)"
    by (simp add: computeCombinedDistance_Inr fsub_def)
qed

lemma sqrt_100: "sqrt 100 = 10"
  by (rule real_sqrt_unique) simp_all

theorem C2_combined_distance_witness:
  "computeHistogramIntersection [Fin 0.5, Fin 0.5] [Fin 1, Fin 0] = Inr (Fin (1 - 0.5))
   \<and> computeHistogramIntersection [Fin 0.8, Fin 0.2] [Fin 1, Fin 0] = Inr (Fin (1 - 0.2))
   \<and> computeCosineDistance [Fin 1, Fin 0, Fin 0, Fin 0] [Fin 9, Fin 3, Fin 3, Fin 1] = Inr (Fin 0.1)
   \<and> computeCombinedDistance [Fin 0.5, Fin 0.5] [Fin 1, Fin 0] [Fin 0.8, Fin 0.2] [Fin 1, Fin 0]
        [Fin 1, Fin 0, Fin 0, Fin 0] [Fin 9, Fin 3, Fin 3, Fin 1] = Inr (Fin 0.29)"
proof -
  have a: "computeHistogramIntersection [Fin 0.5, Fin 0.5] [Fin 1, Fin 0] = Inr (Fin (1 - 0.5))"
    by (simp add: computeHistogramIntersection_def fsum_def fmin_def)
  have b: "computeHistogramIntersection [Fin 0.8, Fin 0.2] [Fin 1, Fin 0] = Inr (Fin (1 - 0.2))"
    by (simp add: computeHistogramIntersection_def fsum_def fmin_def)
  have c: "computeCosineDistance [Fin 1, Fin 0, Fin 0, Fin 0] [Fin 9, Fin 3, Fin 3, Fin 1] = Inr (Fin 0.1)"
    by (simp add: computeCosineDistance_def cosine_sums_def fsub_def sqrt_100)
  from a b c show ?thesis
    using C2_combined_distance [THEN conjunct2, THEN conjunct2, rule_format,
      of "[Fin 0.5, Fin 0.5]" "[Fin 1, Fin 0]" "[Fin 0.8, Fin 0.2]" "[Fin 1, Fin 0]"
         "[Fin 1, Fin 0, Fin 0, Fin 0]" "[Fin 9, Fin 3, Fin 3, Fin 1]"]
    by blast
qed

section \<open>Ranking: top K and ties\<close>

lemma pair_less_iff: "pair_less p q \<longleftrightarrow> p < q"
  by (auto simp: pair_less_def less_prod_def')

lemma pair_greater_iff: "pair_greater p q \<longleftrightarrow> q < p"
  by (simp add: pair_greater_def pair_less_iff)

lemma mset_insert_by: "mset (insert_by lt x ys) = add_mset x (mset ys)"
  by (induction ys) simp_all

lemma mset_std_sort: "mset (std_sort lt xs) = mset xs"
  by (induction xs) (simp_all add: std_sort_def mset_insert_by)

lemma set_insert_by: "set (insert_by lt x ys) = insert x (set ys)"
  by (induction ys) auto

lemma sorted_insert_less:
  "sorted ys \<Longrightarrow> sorted (insert_by (<) (x :: 'a :: linorder) ys)"
  by (induction ys) (auto simp: set_insert_by)

lemma sorted_insert_greater:
  "sorted_wrt (\<ge>) ys \<Longrightarrow> sorted_wrt (\<ge>) (insert_by (\<lambda>a b. b < a) (x :: 'a :: linorder) ys)"
  by (induction ys) (auto simp: set_insert_by)

lemma sorted_std_sort_less: "sorted (std_sort (<) (xs :: 'a :: linorder list))"
  by (induction xs) (simp_all add: std_sort_def sorted_insert_less)

lemma sorted_std_sort_greater: "sorted_wrt (\<ge>) (std_sort (\<lambda>a b. b < a) (xs :: 'a :: linorder list))"
  by (induction xs) (simp_all add: std_sort_def sorted_insert_greater)

lemma std_sort_less: "std_sort (<) xs = sort (xs :: 'a :: linorder list)"
  by (rule sym, rule properties_for_sort) (simp_all add: mset_std_sort sorted_std_sort_less)

lemma std_sort_greater: "std_sort (\<lambda>a b. b < a) xs = rev (sort (xs :: 'a :: linorder list))"
proof -
  have "sort xs = rev (std_sort (\<lambda>a b. b < a) xs)"
    by (rule properties_for_sort)
      (simp_all add: mset_std_sort sorted_wrt_rev sorted_std_sort_greater)
  then show ?thesis by simp
qed

lemma std_sort_pair_less: "std_sort pair_less xs = sort xs"
proof -
  have eq: "pair_less = (<)" by (intro ext) (rule pair_less_iff)
  show ?thesis unfolding eq by (rule std_sort_less)
qed

lemma std_sort_pair_greater: "std_sort pair_greater xs = rev (sort xs)"
proof -
  have eq: "pair_greater = (\<lambda>a b. b < a)" by (intro ext) (rule pair_greater_iff)
  show ?thesis unfolding eq by (rule std_sort_greater)
qed

text \<open>Whatever algorithm \<open>std::sort\<close> runs, its result is the one computed here.\<close>

lemma std_sort_unique:
  assumes "mset ys = mset xs"
  shows "sorted_wrt (\<lambda>p q. \<not> pair_less q p) ys \<Longrightarrow> ys = std_sort pair_less xs"
    and "sorted_wrt (\<lambda>p q. \<not> pair_greater q p) ys \<Longrightarrow> ys = std_sort pair_greater xs"
proof -
  assume "sorted_wrt (\<lambda>p q. \<not> pair_less q p) ys"
  then have "sorted ys"
    by (simp add: pair_less_iff not_less sorted_wrt_iff_nth_less sorted_iff_nth_mono_less)
  then show "ys = std_sort pair_less xs"
    using assms by (simp add: std_sort_pair_less properties_for_sort)
next
  assume "sorted_wrt (\<lambda>p q. \<not> pair_greater q p) ys"
  then have "sorted (rev ys)"
    by (simp add: pair_greater_iff not_less sorted_wrt_rev)
  then have "sort xs = rev ys"
    using assms by (intro properties_for_sort) simp_all
  then show "ys = std_sort pair_greater xs"
    by (simp add: std_sort_pair_greater)
qed

declare top_loop.simps [simp del]

lemma top_loop_take:
  assumes "0 \<le> i"
  shows "top_loop i numMatches distances out =
           Inr (out @ take (nat numMatches - nat i) (drop (nat i) distances))"
  using assms
proof (induction i numMatches distances out rule: top_loop.induct)
  case (1 i numMatches distances out)
  show ?case
  proof (cases "i < numMatches \<and> i < int (length distances)")
    case True
    then have lt: "nat i < length distances" "nat i < nat numMatches"
      using "1.prems" by auto
    have "top_loop i numMatches distances out =
            top_loop (i + 1) numMatches distances (out @ [distances ! nat i])"
      using True "1.prems" by (subst top_loop.simps) simp
    also have "\<dots> = Inr ((out @ [distances ! nat i]) @
                 take (nat numMatches - nat (i + 1)) (drop (nat (i + 1)) distances))"
      using True "1.prems" by (intro "1.IH") auto
    also have "nat (i + 1) = Suc (nat i)"
      using "1.prems" by simp
    also have "(out @ [distances ! nat i]) @ take (nat numMatches - Suc (nat i)) (drop (Suc (nat i)) distances)
               = out @ take (nat numMatches - nat i) (drop (nat i) distances)"
    proof -
      have "drop (nat i) distances = distances ! nat i # drop (Suc (nat i)) distances"
        using lt(1) by (simp add: Cons_nth_drop_Suc)
      moreover have "nat numMatches - nat i = Suc (nat numMatches - Suc (nat i))"
        using lt(2) by linarith
      ultimately show ?thesis by simp
    qed
    finally show ?thesis .
  next
    case False
    then have "nat numMatches \<le> nat i \<or> length distances \<le> nat i"
      using "1.prems" by auto
    then have "take (nat numMatches - nat i) (drop (nat i) distances) = []"
      by auto
    moreover have "top_loop i numMatches distances out = Inr out"
      by (subst top_loop.simps) (simp only: False if_False)
    ultimately show ?thesis
      by simp
  qed
qed

lemma top_loop_0: "top_loop 0 numMatches distances [] = Inr (take (nat numMatches) distances)"
  using top_loop_take [of 0 numMatches distances "[]"] by simp

lemma map_snd_scoreAll: "map snd (scoreAll metric features) = map fst features"
  by (simp add: scoreAll_def case_prod_unfold)

lemma rank_ascending_eq:
  "rank_ascending metric numMatches features = Inr (take (nat numMatches) (sort (scoreAll metric features)))"
  by (simp add: rank_ascending_def top_loop_0 std_sort_pair_less)

lemma rank_descending_eq:
  "rank_descending metric numMatches features = Inr (take (nat numMatches) (rev (sort (scoreAll metric features))))"
  by (simp add: rank_descending_def top_loop_0 std_sort_pair_greater)

lemma sorted_wrt_not_pair_less: "sorted_wrt (\<lambda>p q. \<not> pair_less q p) (sort ds)"
proof -
  have "(\<lambda>p q. \<not> pair_less q p) = (\<le>)"
    by (intro ext) (simp add: pair_less_iff not_less)
  then show ?thesis by simp
qed

lemma sorted_wrt_not_pair_greater: "sorted_wrt (\<lambda>p q. \<not> pair_greater q p) (rev (sort ds))"
proof -
  have "(\<lambda>p q. \<not> pair_greater q p) = (\<ge>)"
    by (intro ext) (simp add: pair_greater_iff not_less)
  then show ?thesis by (simp add: sorted_wrt_rev)
qed

lemma sorted_map_fst: "sorted (ds :: (real \<times> string) list) \<Longrightarrow> sorted (map fst ds)"
  by (induction ds) (auto simp: less_eq_prod_def)

lemma sorted_wrt_ge_map_fst:
  "sorted_wrt (\<ge>) (ds :: (real \<times> string) list) \<Longrightarrow> sorted_wrt (\<ge>) (map fst ds)"
  by (induction ds) (auto simp: less_eq_prod_def)

lemma tie_ascending:
  assumes "sorted (r :: (real \<times> string) list)" "i < j" "j < length r" "fst (r ! i) = fst (r ! j)"
  shows "snd (r ! i) \<le> snd (r ! j)"
proof -
  have "r ! i \<le> r ! j"
    using assms(1-3) by (simp add: sorted_iff_nth_mono)
  then show ?thesis
    using assms(4) by (simp add: less_eq_prod_def)
qed

lemma tie_descending:
  assumes "sorted (rev (r :: (real \<times> string) list))" "i < j" "j < length r" "fst (r ! i) = fst (r ! j)"
  shows "snd (r ! j) \<le> snd (r ! i)"
proof -
  have "sorted_wrt (\<ge>) r"
    using assms(1) by (simp add: sorted_wrt_rev)
  then have "r ! j \<le> r ! i"
    using assms(2,3) by (simp add: sorted_wrt_iff_nth_less)
  then show ?thesis
    using assms(4) by (simp add: less_eq_prod_def)
qed

text \<open>
  Claim C5. When \<open>K\<close> is at least the number of records, the matcher returns every record
  exactly once, fully sorted, and without an error; on an empty store it returns the
  empty list, and so it does for \<open>K = 0\<close>.
\<close>

theorem C5_top_k:
  "(\<forall>metric K features. int (length features) \<le> K \<longrightarrow>
      (\<exists>r. rank_ascending metric K features = Inr r
         \<and> mset r = mset (scoreAll metric features)
         \<and> mset (map snd r) = mset (map fst features)
         \<and> sorted_wrt (\<lambda>p q. \<not> pair_less q p) r \<and> sorted (map fst r))
      \<and> (\<exists>r. rank_descending metric K features = Inr r
         \<and> mset r = mset (scoreAll metric features)
         \<and> sorted_wrt (\<lambda>p q. \<not> pair_greater q p) r \<and> sorted_wrt (\<ge>) (map fst r)))
   \<and> (\<forall>metric K. rank_ascending metric K [] = Inr [] \<and> rank_descending metric K [] = Inr [])
   \<and> (\<forall>metric features. rank_ascending metric 0 features = Inr []
         \<and> rank_descending metric 0 features = Inr [])"
proof (intro conjI allI impI)
  fix metric :: "'v \<Rightarrow> real" and K :: int and features :: "(string \<times> 'v) list"
  assume K: "int (length features) \<le> K"
  let ?ds = "scoreAll metric features"
  have all: "take (nat K) (sort ?ds) = sort ?ds" "take (nat K) (rev (sort ?ds)) = rev (sort ?ds)"
    using K by (simp_all add: scoreAll_def)
  have "mset (map snd (sort ?ds)) = mset (map snd ?ds)"
    by (metis mset_map mset_sort)
  then have ids: "mset (map snd (sort ?ds)) = mset (map fst features)"
    by (simp add: map_snd_scoreAll)
  show "\<exists>r. rank_ascending metric K features = Inr r
         \<and> mset r = mset (scoreAll metric features)
         \<and> mset (map snd r) = mset (map fst features)
         \<and> sorted_wrt (\<lambda>p q. \<not> pair_less q p) r \<and> sorted (map fst r)"
    using ids sorted_wrt_not_pair_less [of ?ds] sorted_map_fst [of "sort ?ds"]
    by (intro exI [of _ "sort ?ds"]) (simp add: rank_ascending_eq all)
  have "sorted_wrt (\<ge>) (rev (sort ?ds))"
    by (simp add: sorted_wrt_rev)
  then show "\<exists>r. rank_descending metric K features = Inr r
         \<and> mset r = mset (scoreAll metric features)
         \<and> sorted_wrt (\<lambda>p q. \<not> pair_greater q p) r \<and> sorted_wrt (\<ge>) (map fst r)"
    using sorted_wrt_not_pair_greater [of ?ds] sorted_wrt_ge_map_fst [of "rev (sort ?ds)"]
    by (intro exI [of _ "rev (sort ?ds)"]) (simp add: rank_descending_eq all)
qed (simp_all add: rank_ascending_eq rank_descending_eq scoreAll_def)

theorem C5_top_k_witness:
  "\<exists>r. rank_ascending (\<lambda>v :: real. v) 5 [(''b'', 2), (''a'', 1)] = Inr r
      \<and> mset r = mset (scoreAll (\<lambda>v :: real. v) [(''b'', 2), (''a'', 1)])
      \<and> mset (map snd r) = mset (map fst [(''b'', 2 :: real), (''a'', 1)])
      \<and> sorted_wrt (\<lambda>p q. \<not> pair_less q p) r \<and> sorted (map fst r)"
  by (rule C5_top_k [THEN conjunct1, rule_format, THEN conjunct1]) simp

text \<open>
  Claim C6, as amended. Records with exactly equal scores appear in the ranked output in
  ascending lexical order of their imageId in the programs that sort ascending
  (\<open>find_matches\<close>, \<open>find_matcheshisto\<close>, findmatcheswithdeepnetwork, \<open>custom_design\<close>), and in
  descending lexical order in the programs that sort descending with \<open>std::greater\<close>
  (\<open>find_matchescolortexture\<close>, \<open>find_matchesmulti\<close>). In both the output is deterministic: it
  does not depend on the order of the records in the store.
\<close>

theorem C6_tie_order:
  "(\<forall>metric K features r i j.
      rank_ascending metric K features = Inr r \<and> i < j \<and> j < length r \<and> fst (r ! i) = fst (r ! j) \<longrightarrow>
      snd (r ! i) \<le> snd (r ! j))
   \<and> (\<forall>metric K features r i j.
      rank_descending metric K features = Inr r \<and> i < j \<and> j < length r \<and> fst (r ! i) = fst (r ! j) \<longrightarrow>
      snd (r ! j) \<le> snd (r ! i))
   \<and> (\<forall>metric K features features'. mset features = mset features' \<longrightarrow>
      rank_ascending metric K features = rank_ascending metric K features' \<and>
      rank_descending metric K features = rank_descending metric K features')"
proof (intro conjI allI impI)
  fix metric :: "'v \<Rightarrow> real" and K :: int and features :: "(string \<times> 'v) list"
    and r :: "(real \<times> string) list" and i j :: nat
  assume a: "rank_ascending metric K features = Inr r \<and> i < j \<and> j < length r \<and> fst (r ! i) = fst (r ! j)"
  then have r: "r = take (nat K) (sort (scoreAll metric features))"
    by (simp add: rank_ascending_eq)
  have "sorted r"
    unfolding r by (rule sorted_wrt_take) simp
  then show "snd (r ! i) \<le> snd (r ! j)"
    using a by (intro tie_ascending) auto
next
  fix metric :: "'v \<Rightarrow> real" and K :: int and features :: "(string \<times> 'v) list"
    and r :: "(real \<times> string) list" and i j :: nat
  assume a: "rank_descending metric K features = Inr r \<and> i < j \<and> j < length r \<and> fst (r ! i) = fst (r ! j)"
  then have r: "r = take (nat K) (rev (sort (scoreAll metric features)))"
    by (simp add: rank_descending_eq)
  have "sorted_wrt (\<ge>) r"
    unfolding r by (rule sorted_wrt_take) (simp add: sorted_wrt_rev)
  then have "sorted (rev r)"
    by (simp add: sorted_wrt_rev)
  then show "snd (r ! j) \<le> snd (r ! i)"
    using a by (intro tie_descending) auto
next
  fix metric :: "'v \<Rightarrow> real" and K :: int and features features' :: "(string \<times> 'v) list"
  assume "mset features = mset features'"
  then have "mset (scoreAll metric features) = mset (scoreAll metric features')"
    unfolding scoreAll_def by (metis mset_map)
  then have "sort (scoreAll metric features) = sort (scoreAll metric features')"
    by (intro properties_for_sort) simp_all
  then show "rank_ascending metric K features = rank_ascending metric K features'"
    "rank_descending metric K features = rank_descending metric K features'"
    by (simp_all add: rank_ascending_eq rank_descending_eq)
qed

theorem C6_tie_order_witness:
  "rank_ascending (\<lambda>v :: real. 1 / 2) 2 [(''b'', 0), (''a'', 0)] = Inr [(1 / 2, ''a''), (1 / 2, ''b'')]
   \<and> snd ([(1 / 2 :: real, ''a''), (1 / 2, ''b'')] ! 0) \<le> snd ([(1 / 2 :: real, ''a''), (1 / 2, ''b'')] ! 1)"
proof -
  have r: "rank_ascending (\<lambda>v :: real. 1 / 2) 2 [(''b'', 0), (''a'', 0)] = Inr [(1 / 2, ''a''), (1 / 2, ''b'')]"
    by (simp add: rank_ascending_eq scoreAll_def)
  then show ?thesis
    using C6_tie_order [THEN conjunct1, rule_format,
      of "\<lambda>v :: real. 1 / 2" 2 "[(''b'', 0), (''a'', 0)]" "[(1 / 2, ''a''), (1 / 2, ''b'')]" 0 1]
    by simp
qed

text \<open>
  Two records with the same score under a descending sort: \<open>b\<close> is ranked before \<open>a\<close>.
\<close>

theorem C6_counterexample:
  "rank_descending (\<lambda>v :: real. 1 / 2) 2 [(''a'', 0), (''b'', 0)] = Inr [(1 / 2, ''b''), (1 / 2, ''a'')]
   \<and> ''a'' < ''b''"
  by (simp add: rank_descending_def top_loop_0 std_sort_def scoreAll_def pair_greater_def pair_less_def)

section \<open>The centre patch\<close>

lemma fold_patch:
  assumes "\<And>y x. (y, x) \<in> set cs \<Longrightarrow>
             0 \<le> y * int (cols img) + x \<and> y * int (cols img) + x < int (length (pixels img))"
  shows "fold_err (\<lambda>(y, x) featureVector.
                     bind_err (Mat_at img y x) (\<lambda>pixel. Inr (featureVector @ channels pixel))) cs acc =
         Inr (acc @ concat (map (\<lambda>(y, x). channels (pixels img ! nat (y * int (cols img) + x))) cs))"
  using assms
proof (induction cs arbitrary: acc)
  case Nil
  then show ?case by simp
next
  case (Cons c cs)
  obtain y x where c: "c = (y, x)" by (cases c) auto
  have "Mat_at img y x = Inr (pixels img ! nat (y * int (cols img) + x))"
    using Cons.prems [of y x] by (simp add: c Mat_at_def)
  moreover have "fold_err (\<lambda>(y, x) featureVector.
                     bind_err (Mat_at img y x) (\<lambda>pixel. Inr (featureVector @ channels pixel))) cs acc' =
         Inr (acc' @ concat (map (\<lambda>(y, x). channels (pixels img ! nat (y * int (cols img) + x))) cs))" for acc'
    using Cons.prems by (intro Cons.IH) auto
  ultimately show ?case
    by (simp add: c bind_err_def)
qed

lemma length_channels: "length (channels p) = 3"
  by (cases p) (simp add: channels_def)

lemma length_concat_channels: "length (concat (map (\<lambda>c. channels (f c)) cs)) = 3 * length cs"
  by (induction cs) (simp_all add: length_channels)

lemma patch_coords_length:
  "length (List.product [cy - 3 .. cy + 3] [cx - 3 .. cx + 3]) = 49"
  by simp

lemma half_bounds:
  assumes "7 \<le> n"
  shows "0 \<le> int n div 2 - 3" "int n div 2 + 3 < int n"
  using assms by auto

lemma computeBaselineFeatureVector_inside:
  assumes "wf_image img" "7 \<le> rows img" "7 \<le> cols img"
  shows "computeBaselineFeatureVector img =
           Inr (concat (map (\<lambda>(y, x). channels (pixels img ! nat (y * int (cols img) + x)))
                  (List.product [int (rows img) div 2 - 3 .. int (rows img) div 2 + 3]
                                [int (cols img) div 2 - 3 .. int (cols img) div 2 + 3])))"
proof -
  let ?cs = "List.product [int (rows img) div 2 - 3 .. int (rows img) div 2 + 3]
                          [int (cols img) div 2 - 3 .. int (cols img) div 2 + 3]"
  have "0 \<le> y * int (cols img) + x \<and> y * int (cols img) + x < int (length (pixels img))"
    if "(y, x) \<in> set ?cs" for y x
  proof -
    have "0 \<le> y" "y < int (rows img)" "0 \<le> x" "x < int (cols img)"
      using that half_bounds [OF assms(2)] half_bounds [OF assms(3)] by auto
    then show ?thesis
      using offset_range [of y "rows img" x "cols img"] assms(1) by (simp add: wf_image_def)
  qed
  then have "fold_err (\<lambda>(y, x) featureVector.
                     bind_err (Mat_at img y x) (\<lambda>pixel. Inr (featureVector @ channels pixel))) ?cs [] =
         Inr ([] @ concat (map (\<lambda>(y, x). channels (pixels img ! nat (y * int (cols img) + x))) ?cs))"
    by (rule fold_patch)
  then show ?thesis
    by (simp add: computeBaselineFeatureVector_def Let_def)
qed

lemma computeBaselineFeatureVector_length:
  assumes "wf_image img" "7 \<le> rows img" "7 \<le> cols img"
  shows "\<exists>v. computeBaselineFeatureVector img = Inr v \<and> length v = 147"
proof -
  have "length (concat (map (\<lambda>c. channels (pixels img ! nat (fst c * int (cols img) + snd c)))
                  (List.product [int (rows img) div 2 - 3 .. int (rows img) div 2 + 3]
                                [int (cols img) div 2 - 3 .. int (cols img) div 2 + 3]))) = 3 * 49"
    unfolding length_concat_channels by simp
  then show ?thesis
    using computeBaselineFeatureVector_inside [OF assms] by (simp add: case_prod_unfold)
qed

lemma fold_err_Inl:
  assumes "fold_err f cs acc = Inl e"
  shows "\<exists>a acc'. a \<in> set cs \<and> f a acc' = Inl e"
  using assms
proof (induction cs arbitrary: acc)
  case Nil
  then show ?case by simp
next
  case (Cons c cs)
  show ?case
  proof (cases "f c acc")
    case (Inl e')
    then show ?thesis using Cons.prems by auto
  next
    case (Inr acc1)
    then have "fold_err f cs acc1 = Inl e" using Cons.prems by simp
    then show ?thesis using Cons.IH by fastforce
  qed
qed

lemma computeBaselineFeatureVector_error:
  assumes "computeBaselineFeatureVector img = Inl e"
  shows "e = UndefinedBehaviour"
proof -
  from assms obtain a acc where
    "(\<lambda>(y, x) featureVector. bind_err (Mat_at img y x) (\<lambda>pixel. Inr (featureVector @ channels pixel))) a acc = Inl e"
    unfolding computeBaselineFeatureVector_def Let_def by (blast dest: fold_err_Inl)
  then show ?thesis
    by (cases a) (auto simp: bind_err_def Mat_at_def Let_def split: sum.splits if_splits)
qed

lemma concat_replicate_replicate: "concat (replicate n (replicate k a)) = replicate (n * k) a"
  by (induction n) (simp_all add: replicate_add)

lemma computeBaselineFeatureVector_solid:
  assumes lo: "0 \<le> (int h div 2 - 3) * int w + (int w div 2 - 3)"
    and hi: "(int h div 2 + 3) * int w + (int w div 2 + 3) < int (h * w)"
  shows "computeBaselineFeatureVector (solid_image h w p) = Inr (concat (replicate 49 (channels p)))"
proof -
  let ?img = "solid_image h w p"
  let ?cs = "List.product [int h div 2 - 3 .. int h div 2 + 3] [int w div 2 - 3 .. int w div 2 + 3]"
  have rng: "0 \<le> y * int w + x \<and> y * int w + x < int (h * w)" if "(y, x) \<in> set ?cs" for y x
  proof -
    have y: "int h div 2 - 3 \<le> y" "y \<le> int h div 2 + 3" and x: "int w div 2 - 3 \<le> x" "x \<le> int w div 2 + 3"
      using that by auto
    have "(int h div 2 - 3) * int w \<le> y * int w" "y * int w \<le> (int h div 2 + 3) * int w"
      using y by (simp_all add: mult_right_mono)
    then show ?thesis
      using x lo hi by linarith
  qed
  have "fold_err (\<lambda>(y, x) featureVector.
                     bind_err (Mat_at ?img y x) (\<lambda>pixel. Inr (featureVector @ channels pixel))) ?cs [] =
         Inr ([] @ concat (map (\<lambda>(y, x). channels (pixels ?img ! nat (y * int (cols ?img) + x))) ?cs))"
    by (rule fold_patch) (use rng in \<open>simp add: solid_image_def\<close>)
  moreover have "map (\<lambda>(y, x). channels (pixels ?img ! nat (y * int (cols ?img) + x))) ?cs
                 = replicate 49 (channels p)"
  proof -
    have "map (\<lambda>(y, x). channels (pixels ?img ! nat (y * int (cols ?img) + x))) ?cs =
          map (\<lambda>c. channels p) ?cs"
      using rng by (intro map_cong) (auto simp: solid_image_def nat_less_iff)
    also have "\<dots> = replicate (length ?cs) (channels p)"
      by (simp only: map_replicate_const)
    finally show ?thesis
      by (simp only: patch_coords_length)
  qed
  ultimately show ?thesis
    by (simp add: computeBaselineFeatureVector_def Let_def solid_image_def)
qed

lemma gray_channels: "channels (100, 100, 100) = replicate 3 (Fin 100)"
proof -
  have "replicate 3 (Fin 100) = [Fin 100, Fin 100, Fin 100]"
    by (simp add: numeral_3_eq_3)
  then show ?thesis
    by (simp add: channels_def)
qed

lemma gray_9x5:
  "computeBaselineFeatureVector (solid_image 9 5 (100, 100, 100)) = Inr (replicate 147 (Fin 100))"
  using computeBaselineFeatureVector_solid [of 9 5 "(100, 100, 100)"]
  by (simp add: gray_channels concat_replicate_replicate del: replicate.simps)


lemma computeBaselineFeatureVector_buffer:
  assumes lo: "0 \<le> (int (rows img) div 2 - 3) * int (cols img) + (int (cols img) div 2 - 3)"
    and hi: "(int (rows img) div 2 + 3) * int (cols img) + (int (cols img) div 2 + 3) < int (length (pixels img))"
  shows "\<exists>v. computeBaselineFeatureVector img = Inr v \<and> length v = 147"
proof -
  let ?cs = "List.product [int (rows img) div 2 - 3 .. int (rows img) div 2 + 3]
                          [int (cols img) div 2 - 3 .. int (cols img) div 2 + 3]"
  have "0 \<le> y * int (cols img) + x \<and> y * int (cols img) + x < int (length (pixels img))"
    if "(y, x) \<in> set ?cs" for y x
  proof -
    have y: "int (rows img) div 2 - 3 \<le> y" "y \<le> int (rows img) div 2 + 3"
      and x: "int (cols img) div 2 - 3 \<le> x" "x \<le> int (cols img) div 2 + 3"
      using that by auto
    have "(int (rows img) div 2 - 3) * int (cols img) \<le> y * int (cols img)"
      "y * int (cols img) \<le> (int (rows img) div 2 + 3) * int (cols img)"
      using y by (simp_all add: mult_right_mono)
    then show ?thesis
      using x lo hi by linarith
  qed
  then have "fold_err (\<lambda>(y, x) featureVector.
                     bind_err (Mat_at img y x) (\<lambda>pixel. Inr (featureVector @ channels pixel))) ?cs [] =
         Inr ([] @ concat (map (\<lambda>(y, x). channels (pixels img ! nat (y * int (cols img) + x))) ?cs))"
    by (rule fold_patch)
  moreover have "length (concat (map (\<lambda>c. channels (pixels img ! nat (fst c * int (cols img) + snd c))) ?cs)) = 3 * 49"
    unfolding length_concat_channels by simp
  ultimately show ?thesis
    by (simp add: computeBaselineFeatureVector_def Let_def case_prod_unfold)
qed

text \<open>
  Claim C9, as amended. For every image of at least \<open>7 \<times> 7\<close> pixels the centre-patch
  extractor succeeds and returns \<open>147\<close> values. It never fails with an OutOfBounds error:
  it makes no size check, and on a smaller image it still returns \<open>147\<close> values whenever
  every address it reads lies inside the pixel buffer.
\<close>

theorem C9_center_patch:
  "(\<forall>img. wf_image img \<and> 7 \<le> rows img \<and> 7 \<le> cols img \<longrightarrow>
      (\<exists>v. computeBaselineFeatureVector img = Inr v \<and> length v = 147))
   \<and> (\<forall>img. computeBaselineFeatureVector img \<noteq> Inl OutOfBounds)
   \<and> (\<forall>img. 0 \<le> (int (rows img) div 2 - 3) * int (cols img) + (int (cols img) div 2 - 3) \<and>
          (int (rows img) div 2 + 3) * int (cols img) + (int (cols img) div 2 + 3) < int (length (pixels img)) \<longrightarrow>
      (\<exists>v. computeBaselineFeatureVector img = Inr v \<and> length v = 147))"
proof (intro conjI allI impI)
  fix img :: image
  assume "wf_image img \<and> 7 \<le> rows img \<and> 7 \<le> cols img"
  then show "\<exists>v. computeBaselineFeatureVector img = Inr v \<and> length v = 147"
    using computeBaselineFeatureVector_length by blast
next
  fix img :: image
  show "computeBaselineFeatureVector img \<noteq> Inl OutOfBounds"
    using computeBaselineFeatureVector_error [of img OutOfBounds] by auto
next
  fix img :: image
  assume "0 \<le> (int (rows img) div 2 - 3) * int (cols img) + (int (cols img) div 2 - 3) \<and>
          (int (rows img) div 2 + 3) * int (cols img) + (int (cols img) div 2 + 3) < int (length (pixels img))"
  then show "\<exists>v. computeBaselineFeatureVector img = Inr v \<and> length v = 147"
    using computeBaselineFeatureVector_buffer by blast
qed

theorem C9_center_patch_witness:
  "wf_image (solid_image 9 9 (100, 100, 100))
   \<and> (\<exists>v. computeBaselineFeatureVector (solid_image 9 9 (100, 100, 100)) = Inr v \<and> length v = 147)"
proof -
  have wf: "wf_image (solid_image 9 9 (100, 100, 100))"
    by (rule wf_solid_image) simp_all
  moreover have "rows (solid_image 9 9 (100, 100, 100)) = 9" "cols (solid_image 9 9 (100, 100, 100)) = 9"
    by (simp_all add: solid_image_def)
  ultimately have "\<exists>v. computeBaselineFeatureVector (solid_image 9 9 (100, 100, 100)) = Inr v \<and> length v = 147"
    by (intro C9_center_patch [THEN conjunct1, rule_format]) simp
  with wf show ?thesis by blast
qed

text \<open>
  An image of \<open>9\<close> rows and \<open>5\<close> columns, every pixel \<open>(100, 100, 100)\<close>: the columns
  \<open>-1\<close> to \<open>5\<close> of the rows \<open>1\<close> to \<open>7\<close> are read, all of them inside the buffer of \<open>45\<close>
  pixels, and a feature vector is returned.
\<close>

theorem C9_counterexample:
  "wf_image (solid_image 9 5 (100, 100, 100))
   \<and> cols (solid_image 9 5 (100, 100, 100)) = 5
   \<and> computeBaselineFeatureVector (solid_image 9 5 (100, 100, 100)) = Inr (replicate 147 (Fin 100))"
proof -
  have "wf_image (solid_image 9 5 (100, 100, 100))"
    by (rule wf_solid_image) simp_all
  moreover have "cols (solid_image 9 5 (100, 100, 100)) = 5"
    by (simp add: solid_image_def)
  ultimately show ?thesis
    using gray_9x5 by blast
qed

section \<open>The text of a float: printing and parsing\<close>


subsection \<open>Digits and their values\<close>

















subsection \<open>Rounding to six significant digits\<close>









subsection \<open>Parsing what was printed\<close>






















subsection \<open>Values of at most six significant digits\<close>




subsection \<open>Some texts, computed\<close>






section \<open>Writing and reading the store\<close>




declare read_values.simps [simp del] readFeatureVectorsFromFile.simps [simp del]








section \<open>The imageId of a record\<close>


















end
